theory Spec2Isabelle
  imports Complex_Main "HOL-Library.Product_Lexorder" "HOL-Library.AList"
begin

section \<open>Python values: exceptions and list indexing\<close>

text \<open>
  The Python exceptions that the modelled functions can raise. A function that may raise
  returns \<open>error + 'a\<close>, with \<open>Inl\<close> for the exception.
\<close>

datatype error = ValueError | KeyError | IndexError | AttributeError | TypeError

definition ebind :: "error + 'a \<Rightarrow> ('a \<Rightarrow> error + 'b) \<Rightarrow> error + 'b" where
  "ebind m f = (case m of Inl e \<Rightarrow> Inl e | Inr x \<Rightarrow> f x)"

text \<open>
  Where a subscript \<open>i\<close> lands in a sequence of \<open>n\<close> items: positions \<open>0 .. n - 1\<close>
  are themselves, \<open>- n .. - 1\<close> are read from the back, and any other subscript has
  no position.
\<close>

definition py_index :: "nat \<Rightarrow> int \<Rightarrow> nat option" where
  "py_index n i =
     (if 0 \<le> i \<and> i < int n then Some (nat i)
      else if - int n \<le> i \<and> i < 0 then Some (nat (int n + i))
      else None)"

text \<open>Reading \<open>xs[i]\<close> and storing \<open>xs[i] = v\<close>; both raise without a position.\<close>

definition py_get :: "'a list \<Rightarrow> int \<Rightarrow> error + 'a" where
  "py_get xs i = (case py_index (length xs) i of None \<Rightarrow> Inl IndexError | Some j \<Rightarrow> Inr (xs ! j))"

definition py_set :: "'a list \<Rightarrow> int \<Rightarrow> 'a \<Rightarrow> error + 'a list" where
  "py_set xs i v =
     (case py_index (length xs) i of None \<Rightarrow> Inl IndexError | Some j \<Rightarrow> Inr (xs[j := v]))"

section \<open>pieces.py\<close>

text \<open>A shape is a Python set of \<open>(row, col)\<close> tuples.\<close>

type_synonym shape = "(int \<times> int) set"

text \<open>\<open>min\<close> of an empty sequence raises \<open>ValueError\<close>.\<close>

definition normalize_shape :: "shape \<Rightarrow> error + shape" where
  "normalize_shape shape =
     (if shape = {} then Inl ValueError
      else let min_r = Min (fst ` shape); min_c = Min (snd ` shape)
           in Inr ((\<lambda>(r, c). (r - min_r, c - min_c)) ` shape))"

definition rotate_90 :: "shape \<Rightarrow> error + shape" where
  "rotate_90 shape = normalize_shape ((\<lambda>(r, c). (c, - r)) ` shape)"

definition flip_horizontal :: "shape \<Rightarrow> error + shape" where
  "flip_horizontal shape = normalize_shape ((\<lambda>(r, c). (r, - c)) ` shape)"

text \<open>
  \<open>orientations.add(x)\<close> on the set of frozensets. The collection is kept as a list
  without duplicates, in insertion order; the order in which Python iterates over it is
  not specified, and nothing below depends on it.
\<close>

definition set_add :: "'a \<Rightarrow> 'a list \<Rightarrow> 'a list" where
  "set_add x xs = (if x \<in> set xs then xs else xs @ [x])"

text \<open>The body of \<open>for _ in range(4)\<close>, on the pair \<open>(current, orientations)\<close>.\<close>

fun orientations_loop :: "nat \<Rightarrow> shape \<Rightarrow> shape list \<Rightarrow> error + shape list" where
  "orientations_loop 0 current orientations = Inr orientations"
| "orientations_loop (Suc n) current orientations =
     (case rotate_90 current of
        Inl e \<Rightarrow> Inl e
      | Inr current' \<Rightarrow>
          (case flip_horizontal current' of
             Inl e \<Rightarrow> Inl e
           | Inr flipped \<Rightarrow>
               orientations_loop n current' (set_add flipped (set_add current' orientations))))"

definition get_all_orientations :: "shape \<Rightarrow> error + shape list" where
  "get_all_orientations shape =
     ebind (normalize_shape shape) (\<lambda>current. orientations_loop 4 current [])"

definition ALL_SHAPES :: "shape list" where
  "ALL_SHAPES =
     [{(0,0)},
      {(0,0),(0,1)},
      {(0,0),(0,1),(0,2)},
      {(0,0),(1,0),(1,1)},
      {(0,0),(0,1),(0,2),(1,1)},
      {(0,0),(1,0),(2,0),(2,1)},
      {(0,1),(0,2),(1,0),(1,1)},
      {(0,0),(0,1),(1,0),(1,1)},
      {(0,0),(0,1),(0,2),(0,3)},
      {(0,1),(1,0),(1,1),(1,2),(2,0)},
      {(0,0),(0,1),(0,2),(0,3),(0,4)},
      {(0,0),(1,0),(2,0),(3,0),(3,1)},
      {(0,0),(0,1),(1,0),(1,1),(2,0)},
      {(0,0),(1,0),(2,0),(3,0),(3,1)},
      {(0,0),(0,1),(0,2),(1,1),(2,1)},
      {(0,0),(0,2),(1,0),(1,1),(1,2)},
      {(0,0),(1,0),(2,0),(3,0),(3,1)},
      {(0,2),(1,1),(1,2),(2,0),(2,1)},
      {(0,1),(1,0),(1,1),(1,2),(2,1)},
      {(0,0),(1,0),(2,0),(3,0),(2,1)},
      {(0,0),(0,1),(1,1),(1,2),(2,2)}]"

section \<open>board.py\<close>

definition NUM_PLAYERS :: int where
  "NUM_PLAYERS = 4"

definition BOARD_SIZE :: int where
  "BOARD_SIZE = 20"

text \<open>
  The fields of a \<open>BoardState\<close>: a cell of \<open>board_grid\<close> is \<open>None\<close> or the colour
  that occupies it.
\<close>

record BoardState =
  board_grid :: "int option list list"
  pieces_remaining :: "int set list"
  current_player :: int
  moves_made :: "int list"
  consecutive_passes :: int

text \<open>\<open>BoardState.__init__\<close>.\<close>

definition new_BoardState :: BoardState where
  "new_BoardState =
     \<lparr>board_grid = replicate (nat BOARD_SIZE) (replicate (nat BOARD_SIZE) None),
      pieces_remaining = replicate (nat NUM_PLAYERS) {0..20},
      current_player = 0,
      moves_made = replicate (nat NUM_PLAYERS) 0,
      consecutive_passes = 0\<rparr>"

text \<open>
  \<open>BoardState.clone\<close> on values: every field is copied. What the copy means for the
  objects behind the fields is the subject of the store model further down.
\<close>

definition clone :: "BoardState \<Rightarrow> BoardState" where
  "clone self =
     \<lparr>board_grid = map (\<lambda>row. map (\<lambda>cell. cell) row) (board_grid self),
      pieces_remaining = map (\<lambda>s. s) (pieces_remaining self),
      current_player = current_player self,
      moves_made = moves_made self,
      consecutive_passes = consecutive_passes self\<rparr>"

section \<open>rules.py\<close>

text \<open>A move is \<open>(piece_id, row_offset, col_offset, shape_coords)\<close>; \<open>None\<close> is a pass.\<close>

type_synonym Move = "int \<times> int \<times> int \<times> shape"

definition CORNER_POSITIONS :: "(int \<times> int) list" where
  "CORNER_POSITIONS =
     [(0, 0), (0, BOARD_SIZE - 1), (BOARD_SIZE - 1, 0), (BOARD_SIZE - 1, BOARD_SIZE - 1)]"

definition edge_neighbors :: "(int \<times> int) list" where
  "edge_neighbors = [(0, 1), (0, - 1), (1, 0), (- 1, 0)]"

definition corner_neighbors :: "(int \<times> int) list" where
  "corner_neighbors = [(1, 1), (1, - 1), (- 1, 1), (- 1, - 1)]"

text \<open>
  A \<open>for\<close> loop over a Python set visits its elements in an order the language does not
  fix. The model visits them in ascending order (\<open>sorted_list_of_set\<close>); for the small
  non-negative integers of a piece set this is also the order CPython uses.
\<close>

text \<open>
  The first loop of \<open>check_legal_move\<close>: \<open>Inr None\<close> is its \<open>return False\<close>,
  \<open>Inr (Some placed_squares)\<close> the list it has built when it runs to the end.
\<close>

fun placed_loop ::
  "BoardState \<Rightarrow> int \<Rightarrow> int \<Rightarrow> (int \<times> int) list \<Rightarrow> (int \<times> int) list
    \<Rightarrow> error + (int \<times> int) list option" where
  "placed_loop state row_off col_off [] placed_squares = Inr (Some placed_squares)"
| "placed_loop state row_off col_off ((r, c) # rest) placed_squares =
     (let rr = r + row_off; cc = c + col_off
      in if \<not> (0 \<le> rr \<and> rr < BOARD_SIZE \<and> 0 \<le> cc \<and> cc < BOARD_SIZE) then Inr None
         else ebind (py_get (board_grid state) rr) (\<lambda>row.
              ebind (py_get row cc) (\<lambda>cell.
                if cell \<noteq> None then Inr None
                else placed_loop state row_off col_off rest (placed_squares @ [(rr, cc)]))))"

text \<open>
  The test \<open>0 <= nr < BOARD_SIZE and 0 <= nc < BOARD_SIZE\<close> followed by
  \<open>state.board_grid[nr][nc] == color\<close>.
\<close>

definition same_color_at :: "BoardState \<Rightarrow> int \<Rightarrow> int \<times> int \<Rightarrow> error + bool" where
  "same_color_at state color p =
     (case p of (nr, nc) \<Rightarrow>
        if 0 \<le> nr \<and> nr < BOARD_SIZE \<and> 0 \<le> nc \<and> nc < BOARD_SIZE
        then ebind (py_get (board_grid state) nr) (\<lambda>row.
             ebind (py_get row nc) (\<lambda>cell. Inr (cell = Some color)))
        else Inr False)"

text \<open>The loop over \<open>edge_neighbors\<close>: \<open>Inr True\<close> is its \<open>return False\<close>.\<close>

fun edge_loop :: "BoardState \<Rightarrow> int \<Rightarrow> int \<times> int \<Rightarrow> (int \<times> int) list \<Rightarrow> error + bool" where
  "edge_loop state color sq [] = Inr False"
| "edge_loop state color sq (d # ds) =
     ebind (same_color_at state color (fst sq + fst d, snd sq + snd d)) (\<lambda>hit.
       if hit then Inr True else edge_loop state color sq ds)"

text \<open>The loop over \<open>corner_neighbors\<close>, which never leaves early; it returns the flag.\<close>

fun corner_loop ::
  "BoardState \<Rightarrow> int \<Rightarrow> int \<times> int \<Rightarrow> (int \<times> int) list \<Rightarrow> bool \<Rightarrow> error + bool" where
  "corner_loop state color sq [] corner_contact = Inr corner_contact"
| "corner_loop state color sq (d # ds) corner_contact =
     ebind (same_color_at state color (fst sq + fst d, snd sq + snd d)) (\<lambda>hit.
       corner_loop state color sq ds (if hit then True else corner_contact))"

text \<open>
  The loop over \<open>placed_squares\<close> and the two statements after it: the result is
  \<open>False\<close> on the first edge contact, and \<open>corner_contact\<close> at the end.
\<close>

fun adjacency_loop ::
  "BoardState \<Rightarrow> int \<Rightarrow> (int \<times> int) list \<Rightarrow> bool \<Rightarrow> error + bool" where
  "adjacency_loop state color [] corner_contact = Inr corner_contact"
| "adjacency_loop state color (sq # rest) corner_contact =
     ebind (edge_loop state color sq edge_neighbors) (\<lambda>edge.
       if edge then Inr False
       else ebind (corner_loop state color sq corner_neighbors corner_contact) (\<lambda>contact.
              adjacency_loop state color rest contact))"

definition check_legal_move :: "BoardState \<Rightarrow> Move \<Rightarrow> error + bool" where
  "check_legal_move state move =
     (case move of (piece_id, row_off, col_off, shape_coords) \<Rightarrow>
        let color = current_player state
        in ebind (py_get (pieces_remaining state) color) (\<lambda>remaining.
             if piece_id \<notin> remaining then Inr False
             else ebind (placed_loop state row_off col_off (sorted_list_of_set shape_coords) [])
               (\<lambda>placed. case placed of
                  None \<Rightarrow> Inr False
                | Some placed_squares \<Rightarrow>
                    ebind (py_get (moves_made state) color) (\<lambda>made.
                      if made = 0
                      then ebind (py_get CORNER_POSITIONS color) (\<lambda>corner.
                             if corner \<notin> set placed_squares then Inr False else Inr True)
                      else adjacency_loop state color placed_squares False))))"

text \<open>Collecting the elements that pass a test which may raise.\<close>

fun efilter :: "('a \<Rightarrow> error + bool) \<Rightarrow> 'a list \<Rightarrow> error + 'a list" where
  "efilter p [] = Inr []"
| "efilter p (x # xs) =
     ebind (p x) (\<lambda>keep. ebind (efilter p xs) (\<lambda>ys. Inr (if keep then x # ys else ys)))"

text \<open>Running a loop body that appends to the result list, over the list of its inputs.\<close>

fun econcat_map :: "('a \<Rightarrow> error + 'b list) \<Rightarrow> 'a list \<Rightarrow> error + 'b list" where
  "econcat_map f [] = Inr []"
| "econcat_map f (x # xs) =
     ebind (f x) (\<lambda>ys. ebind (econcat_map f xs) (\<lambda>zs. Inr (ys @ zs)))"

text \<open>
  The body of \<open>for orientation in orientations\<close>: \<open>range(n)\<close> is \<open>[0..n - 1]\<close>, and
  \<open>max\<close> of an empty orientation raises.
\<close>

definition moves_of_orientation :: "BoardState \<Rightarrow> int \<Rightarrow> shape \<Rightarrow> error + Move list" where
  "moves_of_orientation state piece_id orientation =
     (if orientation = {} then Inl ValueError
      else let max_r = Max (fst ` orientation); max_c = Max (snd ` orientation)
           in efilter (check_legal_move state)
                (concat (map (\<lambda>row_off. map (\<lambda>col_off. (piece_id, row_off, col_off, orientation))
                                          [0..BOARD_SIZE - max_c - 1])
                             [0..BOARD_SIZE - max_r - 1])))"

text \<open>The body of \<open>for piece_id in available_pieces\<close>.\<close>

definition moves_of_piece :: "BoardState \<Rightarrow> int \<Rightarrow> error + Move list" where
  "moves_of_piece state piece_id =
     ebind (py_get ALL_SHAPES piece_id) (\<lambda>shape.
     ebind (get_all_orientations shape) (\<lambda>orientations.
       econcat_map (moves_of_orientation state piece_id) orientations))"

definition get_legal_moves :: "BoardState \<Rightarrow> error + Move list" where
  "get_legal_moves state =
     (let color = current_player state
      in ebind (py_get (pieces_remaining state) color) (\<lambda>available_pieces.
           econcat_map (moves_of_piece state) (sorted_list_of_set available_pieces)))"

text \<open>The loop \<open>new_state.board_grid[rr][cc] = color\<close> over the cells of the shape.\<close>

fun place_cells ::
  "int \<Rightarrow> int \<Rightarrow> int \<Rightarrow> (int \<times> int) list \<Rightarrow> int option list list
    \<Rightarrow> error + int option list list" where
  "place_cells color row_off col_off [] grid = Inr grid"
| "place_cells color row_off col_off ((r, c) # rest) grid =
     (let rr = r + row_off; cc = c + col_off
      in ebind (py_get grid rr) (\<lambda>row.
         ebind (py_set row cc (Some color)) (\<lambda>row'.
         ebind (py_set grid rr row') (\<lambda>grid'.
           place_cells color row_off col_off rest grid'))))"

text \<open>\<open>set.remove\<close> raises \<open>KeyError\<close> when the element is missing.\<close>

definition apply_move :: "BoardState \<Rightarrow> Move option \<Rightarrow> error + BoardState" where
  "apply_move state move =
     (let new_state = clone state; color = current_player new_state
      in case move of
           None \<Rightarrow>
             Inr (new_state\<lparr>consecutive_passes := consecutive_passes new_state + 1,
                            current_player := (color + 1) mod 4\<rparr>)
         | Some (piece_id, row_off, col_off, shape_coords) \<Rightarrow>
             ebind (py_get (pieces_remaining new_state) color) (\<lambda>remaining.
               if piece_id \<notin> remaining then Inl KeyError
               else
             ebind (py_set (pieces_remaining new_state) color (remaining - {piece_id})) (\<lambda>pieces'.
             ebind (place_cells color row_off col_off (sorted_list_of_set shape_coords)
                      (board_grid new_state)) (\<lambda>grid'.
             ebind (py_get (moves_made new_state) color) (\<lambda>made.
             ebind (py_set (moves_made new_state) color (made + 1)) (\<lambda>made'.
               Inr (new_state\<lparr>board_grid := grid',
                              pieces_remaining := pieces',
                              moves_made := made',
                              consecutive_passes := 0,
                              current_player := (color + 1) mod 4\<rparr>)))))))"

text \<open>
  The loop \<open>for color in range(4)\<close> of \<open>is_terminal\<close>; a Python set is finite, so
  \<open>len(s) > 0\<close> says that \<open>s\<close> is not empty.
\<close>

fun remaining_loop :: "BoardState \<Rightarrow> int list \<Rightarrow> error + bool" where
  "remaining_loop state [] = Inr True"
| "remaining_loop state (color # rest) =
     ebind (py_get (pieces_remaining state) color) (\<lambda>s.
       if s \<noteq> {} then Inr False else remaining_loop state rest)"

definition is_terminal :: "BoardState \<Rightarrow> error + bool" where
  "is_terminal state =
     (if consecutive_passes state \<ge> 4 then Inr True else remaining_loop state [0..3])"

section \<open>scoring.py\<close>

text \<open>The inner loop \<open>leftover_squares += len(ALL_SHAPES[pid])\<close>.\<close>

fun leftover_loop :: "int list \<Rightarrow> int \<Rightarrow> error + int" where
  "leftover_loop [] leftover_squares = Inr leftover_squares"
| "leftover_loop (pid # rest) leftover_squares =
     ebind (py_get ALL_SHAPES pid) (\<lambda>shape.
       leftover_loop rest (leftover_squares + int (card shape)))"

fun scores_loop :: "BoardState \<Rightarrow> int list \<Rightarrow> int list \<Rightarrow> error + int list" where
  "scores_loop state [] scores = Inr scores"
| "scores_loop state (color # rest) scores =
     ebind (py_get (pieces_remaining state) color) (\<lambda>remaining.
     ebind (leftover_loop (sorted_list_of_set remaining) 0) (\<lambda>leftover_squares.
     ebind (py_set scores color (- leftover_squares)) (\<lambda>scores'.
       scores_loop state rest scores')))"

definition compute_final_scores :: "BoardState \<Rightarrow> error + int list" where
  "compute_final_scores state = scores_loop state [0..3] [0, 0, 0, 0]"

section \<open>Well-formed states\<close>

text \<open>
  What \<open>BoardState.__init__\<close> establishes and every function above keeps: a 20 by 20
  grid, four piece sets, four move counters, and a current player among the four colours.
  Python sets are finite.
\<close>

definition wf_state :: "BoardState \<Rightarrow> bool" where
  "wf_state s \<longleftrightarrow>
     length (board_grid s) = 20 \<and> list_all (\<lambda>row. length row = 20) (board_grid s) \<and>
     length (pieces_remaining s) = 4 \<and> list_all finite (pieces_remaining s) \<and>
     length (moves_made s) = 4 \<and>
     0 \<le> current_player s \<and> current_player s < 4"

section \<open>The vocabulary of the rules, as the specification words it\<close>

text \<open>
  The predicates below are not taken from the source: they say in the specification's
  words what a placement covers and what it touches, so that the loops of
  \<open>check_legal_move\<close> can be compared with them.
\<close>

definition on_board :: "int \<times> int \<Rightarrow> bool" where
  "on_board p \<longleftrightarrow> 0 \<le> fst p \<and> fst p < BOARD_SIZE \<and> 0 \<le> snd p \<and> snd p < BOARD_SIZE"

definition cell_at :: "BoardState \<Rightarrow> int \<times> int \<Rightarrow> int option" where
  "cell_at s p = board_grid s ! nat (fst p) ! nat (snd p)"

text \<open>A cell of the board already owned by the colour.\<close>

definition owned_by :: "BoardState \<Rightarrow> int \<Rightarrow> int \<times> int \<Rightarrow> bool" where
  "owned_by s color q \<longleftrightarrow> on_board q \<and> cell_at s q = Some color"

text \<open>The cells a placement occupies after the offset.\<close>

definition placed_cells :: "Move \<Rightarrow> (int \<times> int) set" where
  "placed_cells move =
     (case move of (piece_id, row_off, col_off, shape_coords) \<Rightarrow>
        (\<lambda>(r, c). (r + row_off, c + col_off)) ` shape_coords)"

text \<open>Sharing an edge (4-neighbourhood), and touching diagonally.\<close>

definition edge_adjacent :: "int \<times> int \<Rightarrow> int \<times> int \<Rightarrow> bool" where
  "edge_adjacent p q \<longleftrightarrow> \<bar>fst p - fst q\<bar> + \<bar>snd p - snd q\<bar> = 1"

definition diagonally_adjacent :: "int \<times> int \<Rightarrow> int \<times> int \<Rightarrow> bool" where
  "diagonally_adjacent p q \<longleftrightarrow> \<bar>fst p - fst q\<bar> = 1 \<and> \<bar>snd p - snd q\<bar> = 1"

definition touches_edge :: "BoardState \<Rightarrow> int \<Rightarrow> (int \<times> int) set \<Rightarrow> bool" where
  "touches_edge s color cells \<longleftrightarrow> (\<exists>p \<in> cells. \<exists>q. owned_by s color q \<and> edge_adjacent p q)"

definition touches_corner :: "BoardState \<Rightarrow> int \<Rightarrow> (int \<times> int) set \<Rightarrow> bool" where
  "touches_corner s color cells \<longleftrightarrow>
     (\<exists>p \<in> cells. \<exists>q. owned_by s color q \<and> diagonally_adjacent p q)"

text \<open>
  The dimensions of the grid, and the subscripts that Python accepts on a list of 20
  items, both used to say when \<open>apply_move\<close> raises.
\<close>

definition grid_ok :: "int option list list \<Rightarrow> bool" where
  "grid_ok grid \<longleftrightarrow> length grid = 20 \<and> (\<forall>row \<in> set grid. length row = 20)"

definition index_ok :: "int \<times> int \<Rightarrow> bool" where
  "index_ok p \<longleftrightarrow> - 20 \<le> fst p \<and> fst p < 20 \<and> - 20 \<le> snd p \<and> snd p < 20"

text \<open>
  What a run of the placement loop without an exception leaves on the board. A subscript
  from \<open>-20\<close> to \<open>-1\<close> counts from the end of the list, so a placed cell lands at its
  row and column modulo 20; the cells landed on hold the colour and every other cell is
  as it was.
\<close>

definition wrap_cell :: "int \<times> int \<Rightarrow> nat \<times> nat" where
  "wrap_cell p = (nat (fst p mod 20), nat (snd p mod 20))"

definition written_grid ::
  "int \<Rightarrow> (nat \<times> nat) set \<Rightarrow> int option list list \<Rightarrow> int option list list" where
  "written_grid color landed grid =
     map (\<lambda>i. map (\<lambda>j. if (i, j) \<in> landed then Some color else grid ! i ! j) [0..<20]) [0..<20]"

text \<open>
  A position used in the examples: colour 0 has placed the single square on its corner,
  the three other colours have passed, and colour 0 is to move again.
\<close>

definition after_corner :: BoardState where
  "after_corner =
     \<lparr>board_grid = (replicate 20 (replicate 20 None))[0 := (replicate 20 None)[0 := Some 0]],
      pieces_remaining = [{1..20}, {0..20}, {0..20}, {0..20}],
      current_player = 0,
      moves_made = [1, 0, 0, 0],
      consecutive_passes = 3\<rparr>"

section \<open>Auxiliary notions for the orientation group\<close>



definition translate :: "int \<times> int \<Rightarrow> shape \<Rightarrow> shape" where
  "translate v S = (\<lambda>(r, c). (r + fst v, c + snd v)) ` S"

definition nrm :: "shape \<Rightarrow> shape" where
  "nrm S = translate (- Min (fst ` S), - Min (snd ` S)) S"

text \<open>A shape as a Python set can be: finite, and here not empty.\<close>

definition proper :: "shape \<Rightarrow> bool" where
  "proper S \<longleftrightarrow> finite S \<and> S \<noteq> {}"


section \<open>rl\_agents/mcts.py: the search tree\<close>

text \<open>
  The key of an action in the dictionaries of a node: \<open>(piece_id, index)\<close> for the
  \<open>index\<close>-th placement of a piece, or \<open>('pass', 0)\<close>.
\<close>

datatype action_key = PieceKey int nat | PassKey

text \<open>
  An \<open>MCTSNode\<close>. The dictionaries \<open>children\<close> and \<open>priors\<close> are association lists
  in insertion order, which is the order Python iterates a dictionary in. A child is
  owned by the dictionary of its parent, so the tree is a value; the \<open>parent\<close> attribute
  of a node is not stored: the parent chain of a node that selection has reached is the
  selection path read backwards. \<open>last_action_key\<close> is set on children only.
  Python floats are taken as real numbers.
\<close>

datatype MCTSNode = MCTSNode
  (state: BoardState)
  (children: "(action_key \<times> MCTSNode) list")
  (visit_count: int)
  (total_value: real)
  (priors: "(action_key \<times> real) list")
  (expanded: bool)
  (last_action_key: "action_key option")

text \<open>\<open>MCTSNode.__init__\<close>.\<close>

definition new_MCTSNode :: "BoardState \<Rightarrow> MCTSNode" where
  "new_MCTSNode st = MCTSNode st [] 0 0 [] False None"

definition mean_value :: "MCTSNode \<Rightarrow> real" where
  "mean_value node =
     (if visit_count node = 0 then 0 else total_value node / real_of_int (visit_count node))"

text \<open>\<open>d.get(key, default)\<close> on an association list.\<close>

definition dict_get :: "('k \<times> 'v) list \<Rightarrow> 'k \<Rightarrow> 'v \<Rightarrow> 'v" where
  "dict_get d key dflt = (case map_of d key of None \<Rightarrow> dflt | Some v \<Rightarrow> v)"

text \<open>A score is a float: finite, or \<open>float('inf')\<close>.\<close>

datatype score = Finite real | Infinity

fun score_gt :: "score \<Rightarrow> score \<Rightarrow> bool" where
  "score_gt (Finite a) (Finite b) = (a > b)"
| "score_gt Infinity (Finite b) = True"
| "score_gt _ Infinity = False"

text \<open>
  \<open>ucb_score\<close>. The prior is read from \<open>child.priors\<close>, as the source does. Reading
  \<open>last_action_key\<close> on a node that has none raises \<open>AttributeError\<close>, and
  \<open>math.sqrt\<close> of a negative number raises \<open>ValueError\<close>.
\<close>

definition ucb_score :: "MCTSNode \<Rightarrow> MCTSNode \<Rightarrow> real \<Rightarrow> error + score" where
  "ucb_score parent child c_puct =
     (if visit_count child = 0 then Inr Infinity
      else case last_action_key child of
             None \<Rightarrow> Inl AttributeError
           | Some key \<Rightarrow>
               if visit_count parent < 0 then Inl ValueError
               else Inr (Finite (mean_value child
                      + c_puct * dict_get (priors child) key 0
                          * sqrt (real_of_int (visit_count parent))
                          / (1 + real_of_int (visit_count child)))))"

text \<open>
  The loop \<open>for action_key, child in node.children.items()\<close>, on the pair
  \<open>(best_score, best)\<close>. \<open>best\<close> holds \<open>best_child\<close> with its position in the
  dictionary, and is \<open>None\<close> while \<open>best_child\<close> is \<open>None\<close>. The third argument counts
  the position.
\<close>

fun best_loop ::
  "MCTSNode \<Rightarrow> real \<Rightarrow> nat \<Rightarrow> (action_key \<times> MCTSNode) list
    \<Rightarrow> score \<times> (nat \<times> MCTSNode) option \<Rightarrow> error + score \<times> (nat \<times> MCTSNode) option" where
  "best_loop node c_puct i [] best = Inr best"
| "best_loop node c_puct i ((action_key, child) # rest) (best_score, best) =
     (case ucb_score node child c_puct of
        Inl e \<Rightarrow> Inl e
      | Inr score \<Rightarrow>
          if score_gt score best_score
          then best_loop node c_puct (Suc i) rest (score, Some (i, child))
          else best_loop node c_puct (Suc i) rest (best_score, best))"

definition best_child :: "MCTSNode \<Rightarrow> real \<Rightarrow> error + (nat \<times> MCTSNode) option" where
  "best_child node c_puct =
     (case best_loop node c_puct 0 (children node) (Finite (- 999999), None) of
        Inl e \<Rightarrow> Inl e
      | Inr (best_score, best) \<Rightarrow> Inr best)"

text \<open>
  The selection loop \<open>while node.expanded and len(node.children) > 0\<close>. It returns the
  node it stops at together with the positions of the children it went through; when
  \<open>best_child\<close> is still \<open>None\<close> after the inner loop, the next test of
  \<open>node.expanded\<close> raises \<open>AttributeError\<close>.
\<close>

function select :: "real \<Rightarrow> MCTSNode \<Rightarrow> error + nat list \<times> MCTSNode" where
  "select c_puct node =
     (if expanded node \<and> children node \<noteq> []
      then case best_child node c_puct of
             Inl e \<Rightarrow> Inl e
           | Inr None \<Rightarrow> Inl AttributeError
           | Inr (Some (i, child)) \<Rightarrow>
               (case select c_puct child of
                  Inl e \<Rightarrow> Inl e
                | Inr (path, leaf) \<Rightarrow> Inr (i # path, leaf))
      else Inr ([], node))"
  by pat_completeness auto
termination
proof -
  have member: "ch \<in> snd ` set cs0"
    if "best_loop nd c k cs (s, b) = Inr (s', Some (j, ch))"
      and "\<forall>m x. b = Some (m, x) \<longrightarrow> x \<in> snd ` set cs0" and "set cs \<subseteq> set cs0"
    for nd c k cs s b s' j ch cs0
    using that
    by (induction nd c k cs "(s, b)" arbitrary: s b rule: best_loop.induct)
      (force split: sum.splits if_splits)+
  have smaller: "size child < size node"
    if found: "best_child node c_puct = Inr (Some (i, child))" for node c_puct i child
  proof -
    have "child \<in> snd ` set (children node)"
      using found member [of node c_puct 0 "children node" "Finite (- 999999)" None _ i child
          "children node"]
      by (auto simp: best_child_def split: sum.splits prod.splits)
    then show ?thesis
      by (cases node) (auto simp: less_Suc_eq_le intro!: size_list_estimation')
  qed
  show ?thesis
    by (relation "measure (\<lambda>(c_puct, node). size node)") (auto dest!: smaller)
qed

declare select.simps [simp del]

section \<open>rl\_agents/policy\_wrapper.py\<close>

text \<open>The keys of the dictionary \<open>decode_policy\<close> returns: a piece id, or \<open>'pass'\<close>.\<close>

datatype policy_key = Piece int | Pass

text \<open>The loop \<open>for pid in legal_piece_ids: mask[pid] = True\<close>.\<close>

fun mask_loop :: "int list \<Rightarrow> bool list \<Rightarrow> error + bool list" where
  "mask_loop [] mask_np = Inr mask_np"
| "mask_loop (pid # rest) mask_np = ebind (py_set mask_np pid True) (mask_loop rest)"

text \<open>\<open>np.argmax\<close>: the first position of the maximum.\<close>

definition argmax :: "real list \<Rightarrow> nat" where
  "argmax xs = length (takeWhile (\<lambda>x. x \<noteq> Max (set xs)) xs)"

text \<open>
  numpy computes the softmax in 32-bit floating point, where a probability can underflow
  to 0 and a quotient is rounded. None of this is modelled: the function that takes the
  masked logits and the temperature to the probability numpy computes at each position
  is a parameter of \<open>decode_policy\<close> and of every function that calls it, and nothing is
  assumed about it.
\<close>

type_synonym np_softmax = "real list \<Rightarrow> real \<Rightarrow> nat \<Rightarrow> real"

text \<open>The softmax branch and the argmax branch of \<open>decode_policy\<close>: \<open>probs[i]\<close>.\<close>

definition policy_probs :: "np_softmax \<Rightarrow> real list \<Rightarrow> real \<Rightarrow> nat \<Rightarrow> real" where
  "policy_probs softmax masked_logits temperature i =
     (if temperature > 1 / 100000000 then softmax masked_logits temperature i
      else if i = argmax masked_logits then 1 else 0)"

text \<open>
  \<open>decode_policy\<close>. The vector of logits is a list; a subscript outside it raises
  \<open>IndexError\<close>, as numpy does. Once \<open>mask[21] = True\<close> has succeeded the vector has at
  least 22 entries, so the reads \<open>probs[i]\<close> for \<open>i\<close> in \<open>0 .. 21\<close> are in range.
\<close>

definition decode_policy ::
  "np_softmax \<Rightarrow> real list \<Rightarrow> int set \<Rightarrow> real \<Rightarrow> error + (policy_key \<times> real) list" where
  "decode_policy softmax logits_np legal_piece_ids temperature =
     ebind (mask_loop (sorted_list_of_set legal_piece_ids) (map (\<lambda>x. False) logits_np)) (\<lambda>mask1.
     ebind (py_set mask1 21 True) (\<lambda>mask_np.
       if legal_piece_ids = {} then Inr [(Pass, 1)]
       else let masked_logits = map (\<lambda>(m, l). if m then l else - 1000000000) (zip mask_np logits_np);
                probs = policy_probs softmax masked_logits temperature
            in Inr (map (\<lambda>i. (Piece i, probs (nat i))) (filter (\<lambda>i. i \<in> legal_piece_ids) [0..20])
                    @ [(Pass, probs 21)])))"

section \<open>rl\_agents/mcts.py: expansion, evaluation, backup\<close>

text \<open>
  The evaluator: \<open>encode_state\<close> followed by the network, as a function from the state to
  the 22 policy logits and the value.
\<close>

type_synonym evaluator = "BoardState \<Rightarrow> real list \<times> real"

text \<open>A child as \<open>expand_node\<close> creates it.\<close>

definition child_node :: "BoardState \<Rightarrow> action_key \<Rightarrow> MCTSNode" where
  "child_node child_state action_key = MCTSNode child_state [] 0 0 [] False (Some action_key)"

text \<open>
  The loop \<open>for idx, mv in enumerate(placements)\<close>, on the two dictionaries
  \<open>(node.children, node.priors)\<close>.
\<close>

fun placements_loop ::
  "BoardState \<Rightarrow> int \<Rightarrow> real \<Rightarrow> nat \<Rightarrow> Move list
    \<Rightarrow> (action_key \<times> MCTSNode) list \<times> (action_key \<times> real) list
    \<Rightarrow> error + (action_key \<times> MCTSNode) list \<times> (action_key \<times> real) list" where
  "placements_loop st pid split_prob idx [] dicts = Inr dicts"
| "placements_loop st pid split_prob idx (mv # rest) (chs, prs) =
     ebind (apply_move st (Some mv)) (\<lambda>child_state.
       placements_loop st pid split_prob (Suc idx) rest
         (AList.update (PieceKey pid idx) (child_node child_state (PieceKey pid idx)) chs,
          AList.update (PieceKey pid idx) split_prob prs))"

text \<open>
  The loop \<open>for pid in legal_piece_ids\<close>; \<open>moves_by_piece[pid]\<close> is the list of the legal
  moves of that piece, in their order, and a piece without one is skipped.
\<close>

fun pieces_loop ::
  "BoardState \<Rightarrow> (policy_key \<times> real) list \<Rightarrow> Move list \<Rightarrow> int list
    \<Rightarrow> (action_key \<times> MCTSNode) list \<times> (action_key \<times> real) list
    \<Rightarrow> error + (action_key \<times> MCTSNode) list \<times> (action_key \<times> real) list" where
  "pieces_loop st piece_policy legal_moves [] dicts = Inr dicts"
| "pieces_loop st piece_policy legal_moves (pid # rest) dicts =
     (let pprob = dict_get piece_policy (Piece pid) 0;
          placements = filter (\<lambda>mv. fst mv = pid) legal_moves
      in if placements = [] then pieces_loop st piece_policy legal_moves rest dicts
         else ebind (placements_loop st pid (pprob / real (length placements)) 0 placements dicts)
                (pieces_loop st piece_policy legal_moves rest))"

definition expand_node :: "np_softmax \<Rightarrow> MCTSNode \<Rightarrow> evaluator \<Rightarrow> error + MCTSNode" where
  "expand_node softmax node model =
     ebind (is_terminal (state node)) (\<lambda>terminal.
       if terminal
       then Inr (MCTSNode (state node) (children node) (visit_count node) (total_value node)
                   (priors node) True (last_action_key node))
       else
     ebind (get_legal_moves (state node)) (\<lambda>legal_moves.
     ebind (py_get (pieces_remaining (state node)) (current_player (state node))) (\<lambda>legal_piece_ids.
     ebind (decode_policy softmax (fst (model (state node))) legal_piece_ids 1) (\<lambda>piece_policy.
     ebind (pieces_loop (state node) piece_policy legal_moves (sorted_list_of_set legal_piece_ids)
              (children node, priors node)) (\<lambda>(chs, prs).
     ebind (apply_move (state node) None) (\<lambda>pass_state.
       let pass_prob = dict_get piece_policy Pass 0
       in Inr (if pass_prob > 0
               then MCTSNode (state node)
                      (AList.update PassKey (child_node pass_state PassKey) chs)
                      (visit_count node) (total_value node)
                      (AList.update PassKey pass_prob prs) True (last_action_key node)
               else MCTSNode (state node) chs (visit_count node) (total_value node)
                      prs True (last_action_key node))))))))"

definition evaluate_node :: "MCTSNode \<Rightarrow> evaluator \<Rightarrow> error + real" where
  "evaluate_node node model =
     ebind (is_terminal (state node)) (\<lambda>terminal.
       if terminal
       then ebind (compute_final_scores (state node)) (\<lambda>final_scores.
            ebind (py_get final_scores (current_player (state node))) (\<lambda>own.
              Inr (real_of_int own / 100)))
       else Inr (snd (model (state node))))"

text \<open>Applying a function to the item at one position of a list.\<close>

fun map_at :: "nat \<Rightarrow> ('a \<Rightarrow> 'a) \<Rightarrow> 'a list \<Rightarrow> 'a list" where
  "map_at i f [] = []"
| "map_at 0 f (x # xs) = f x # xs"
| "map_at (Suc i) f (x # xs) = x # map_at i f xs"

text \<open>
  The node that selection stopped at is changed in place by \<open>expand_node\<close>; in the tree
  as a value, the changed node takes the place of the old one at the end of the path.
\<close>

fun store_at :: "nat list \<Rightarrow> MCTSNode \<Rightarrow> MCTSNode \<Rightarrow> MCTSNode" where
  "store_at [] new cur = new"
| "store_at (i # path) new cur =
     MCTSNode (state cur) (map_at i (\<lambda>(key, child). (key, store_at path new child)) (children cur))
       (visit_count cur) (total_value cur) (priors cur) (expanded cur) (last_action_key cur)"

text \<open>The body of the loop of \<open>backup_value\<close>.\<close>

definition backup_step :: "real \<Rightarrow> MCTSNode \<Rightarrow> MCTSNode" where
  "backup_step v cur =
     MCTSNode (state cur) (children cur) (visit_count cur + 1) (total_value cur + v)
       (priors cur) (expanded cur) (last_action_key cur)"

text \<open>
  \<open>backup_value\<close> walks from the selected node along \<open>cur.parent\<close> up to the root, which
  has no parent. The nodes it visits are the ones on the selection path, so on the tree
  as a value it is a recursion along that path from the root.
\<close>

fun backup_value :: "nat list \<Rightarrow> real \<Rightarrow> MCTSNode \<Rightarrow> MCTSNode" where
  "backup_value [] v cur = backup_step v cur"
| "backup_value (i # path) v cur =
     backup_step v
       (MCTSNode (state cur)
          (map_at i (\<lambda>(key, child). (key, backup_value path v child)) (children cur))
          (visit_count cur) (total_value cur) (priors cur) (expanded cur) (last_action_key cur))"

text \<open>One pass of the loop of \<open>mcts_search\<close>: select, expand, evaluate, backup.\<close>

definition simulation ::
  "np_softmax \<Rightarrow> evaluator \<Rightarrow> real \<Rightarrow> MCTSNode \<Rightarrow> error + MCTSNode" where
  "simulation softmax model c_puct root_node =
     ebind (select c_puct root_node) (\<lambda>(path, node).
     ebind (if expanded node then Inr node
            else ebind (is_terminal (state node)) (\<lambda>terminal.
                   if terminal then Inr node else expand_node softmax node model)) (\<lambda>node'.
     ebind (evaluate_node node' model) (\<lambda>v.
       Inr (backup_value path v (store_at path node' root_node)))))"

text \<open>\<open>mcts_search\<close>: \<open>n_simulations\<close> passes, each starting from the root.\<close>

fun mcts_search ::
  "np_softmax \<Rightarrow> MCTSNode \<Rightarrow> evaluator \<Rightarrow> nat \<Rightarrow> real \<Rightarrow> error + MCTSNode" where
  "mcts_search softmax root_node model 0 c_puct = Inr root_node"
| "mcts_search softmax root_node model (Suc n) c_puct =
     ebind (simulation softmax model c_puct root_node)
       (\<lambda>root_node'. mcts_search softmax root_node' model n c_puct)"

definition children_visits :: "MCTSNode \<Rightarrow> int" where
  "children_visits node = sum_list (map (\<lambda>(key, child). visit_count child) (children node))"

section \<open>The selection score as the specification words it\<close>

text \<open>
  The score of a visited child according to the specification: the prior is the one that
  expansion stored at the parent under the child's action key.
\<close>

definition spec_score :: "MCTSNode \<Rightarrow> action_key \<Rightarrow> MCTSNode \<Rightarrow> real \<Rightarrow> real" where
  "spec_score parent action_key child c_puct =
     mean_value child
       + c_puct * dict_get (priors parent) action_key 0 * sqrt (real_of_int (visit_count parent))
           / (1 + real_of_int (visit_count child))"

text \<open>
  A node after three simulations: it has been expanded with a placement child (prior
  0.25) and a pass child (prior 0.75), and each child has been visited once with value 0.
  The children are terminal positions, which the search never expands, so their own
  \<open>priors\<close> dictionaries are empty.
\<close>

definition visited_placement :: "BoardState \<Rightarrow> MCTSNode" where
  "visited_placement st = MCTSNode st [] 1 0 [] False (Some (PieceKey 0 0))"

definition visited_pass :: "BoardState \<Rightarrow> MCTSNode" where
  "visited_pass st = MCTSNode st [] 1 0 [] False (Some PassKey)"

definition two_visited_children :: "BoardState \<Rightarrow> BoardState \<Rightarrow> BoardState \<Rightarrow> MCTSNode" where
  "two_visited_children st st1 st2 =
     MCTSNode st [(PieceKey 0 0, visited_placement st1), (PassKey, visited_pass st2)] 3 0
       [(PieceKey 0 0, 1 / 4), (PassKey, 3 / 4)] True None"

text \<open>
  Two more positions for the examples. In \<open>spent_state\<close> the colours 0 and 1 have placed
  all their pieces and colour 0 is to move, so the only action is a pass. The evaluator
  \<open>uniform_evaluator\<close> gives every action the logit 0 and every position the value 0.
\<close>

definition spent_state :: BoardState where
  "spent_state =
     \<lparr>board_grid = replicate 20 (replicate 20 None),
      pieces_remaining = [{}, {}, {0..20}, {0..20}],
      current_player = 0,
      moves_made = [21, 21, 0, 0],
      consecutive_passes = 0\<rparr>"

definition uniform_evaluator :: evaluator where
  "uniform_evaluator st = (replicate 22 0, 0)"

text \<open>A softmax for the examples: the same probability at each of the 22 positions.\<close>

definition uniform_softmax :: np_softmax where
  "uniform_softmax masked_logits temperature i = 1 / 22"

text \<open>
  The search tree over \<open>spent_state\<close> with \<open>uniform_evaluator\<close>: the position after the
  pass of colour 0, the root after the first simulation has expanded it, and the pass
  child after the second simulation has expanded it.
\<close>

definition spent_passed :: BoardState where
  "spent_passed = spent_state\<lparr>consecutive_passes := 1, current_player := 1\<rparr>"

definition spent_root_expanded :: MCTSNode where
  "spent_root_expanded =
     MCTSNode spent_state [(PassKey, child_node spent_passed PassKey)] 0 0 [(PassKey, 1)] True None"

definition spent_child_expanded :: MCTSNode where
  "spent_child_expanded =
     MCTSNode spent_passed
       [(PassKey, child_node (spent_passed\<lparr>consecutive_passes := 2, current_player := 2\<rparr>) PassKey)]
       0 0 [(PassKey, 1)] True (Some PassKey)"

section \<open>The objects behind a BoardState: an explicit store\<close>
































chapter \<open>Properties\<close>

section \<open>Basic facts about the exception monad and list indexing\<close>

lemma ebind_Inr [simp]: "ebind (Inr x) f = f x"
  by (simp add: ebind_def)

lemma ebind_Inl [simp]: "ebind (Inl e) f = Inl e"
  by (simp add: ebind_def)

lemma replicate_four: "replicate 4 x = [x, x, x, x]"
  by (simp add: numeral_eq_Suc)

lemma wf_new_BoardState: "wf_state new_BoardState"
  by (simp add: wf_state_def new_BoardState_def BOARD_SIZE_def NUM_PLAYERS_def list_all_iff)

section \<open>The shape table\<close>

text \<open>
  Claim C9 says that the table holds 21 canonical shapes, each with minimum row and minimum
  column 0, and that the 21 shapes are pairwise distinct as offset sets. The table does
  hold 21 normalized shapes, but the entries with ids 11, 13 and 16 (commented in the
  source as the L, N and V pentominoes) are one and the same offset set.
\<close>

lemma ALL_SHAPES_length: "length ALL_SHAPES = 21"
  by (simp add: ALL_SHAPES_def)

lemma ALL_SHAPES_normalized:
  "list_all (\<lambda>shape. Min (fst ` shape) = 0 \<and> Min (snd ` shape) = 0) ALL_SHAPES"
  by (simp add: ALL_SHAPES_def)

theorem ALL_SHAPES_duplicates:
  "ALL_SHAPES ! 11 = ALL_SHAPES ! 13 \<and> ALL_SHAPES ! 13 = ALL_SHAPES ! 16
    \<and> \<not> distinct ALL_SHAPES"
  by (simp add: ALL_SHAPES_def)

section \<open>Terminal states\<close>

lemma remaining_loop_four:
  assumes "pieces_remaining s = [a, b, c, d]"
  shows "remaining_loop s [0..3] = Inr (a = {} \<and> b = {} \<and> c = {} \<and> d = {})"
  using assms by (simp add: upto_rec1 py_get_def py_index_def)

text \<open>
  Claim C6: \<open>is_terminal\<close> returns true if and only if \<open>consecutive_passes >= 4\<close> or
  all four colours' remaining-piece sets are empty; in particular it is true at exactly 4
  consecutive passes, whatever pieces remain.
\<close>

theorem is_terminal_iff:
  assumes "length (pieces_remaining s) = 4"
  shows "is_terminal s =
           Inr (consecutive_passes s \<ge> 4 \<or> (\<forall>remaining \<in> set (pieces_remaining s). remaining = {}))
         \<and> (consecutive_passes s = 4 \<longrightarrow> is_terminal s = Inr True)"
proof -
  obtain a b c d where abcd: "pieces_remaining s = [a, b, c, d]"
    using assms by (auto simp: length_Suc_conv eval_nat_numeral)
  show ?thesis
    by (auto simp: is_terminal_def remaining_loop_four [OF abcd] abcd)
qed

theorem is_terminal_iff_witness:
  "length (pieces_remaining (new_BoardState\<lparr>consecutive_passes := 4\<rparr>)) = 4
   \<and> is_terminal (new_BoardState\<lparr>consecutive_passes := 4\<rparr>) = Inr True
   \<and> is_terminal new_BoardState = Inr False"
  using is_terminal_iff [of "new_BoardState\<lparr>consecutive_passes := 4\<rparr>"]
    is_terminal_iff [of new_BoardState]
  by (simp add: new_BoardState_def NUM_PLAYERS_def)

section \<open>Legality of a placement\<close>

lemma py_get_in_range: "0 \<le> i \<Longrightarrow> i < int (length xs) \<Longrightarrow> py_get xs i = Inr (xs ! nat i)"
  by (simp add: py_get_def py_index_def)

lemma wf_state_row:
  assumes "wf_state s" "on_board p"
  shows "py_get (board_grid s) (fst p) = Inr (board_grid s ! nat (fst p))"
    and "py_get (board_grid s ! nat (fst p)) (snd p) = Inr (cell_at s p)"
proof -
  have r: "0 \<le> fst p" "fst p < 20" "0 \<le> snd p" "snd p < 20"
    using assms(2) by (simp_all add: on_board_def BOARD_SIZE_def)
  have len: "length (board_grid s) = 20" and rows: "\<forall>row \<in> set (board_grid s). length row = 20"
    using assms(1) by (simp_all add: wf_state_def list_all_iff)
  show "py_get (board_grid s) (fst p) = Inr (board_grid s ! nat (fst p))"
    using r len by (simp add: py_get_in_range)
  have "board_grid s ! nat (fst p) \<in> set (board_grid s)"
    using r len by (intro nth_mem) simp
  then have "length (board_grid s ! nat (fst p)) = 20"
    using rows by blast
  then show "py_get (board_grid s ! nat (fst p)) (snd p) = Inr (cell_at s p)"
    using r by (simp add: py_get_in_range cell_at_def)
qed

lemma same_color_at_wf:
  assumes "wf_state s"
  shows "same_color_at s color p = Inr (owned_by s color p)"
proof -
  obtain nr nc where p: "p = (nr, nc)" by (cases p)
  show ?thesis
  proof (cases "on_board p")
    case True
    then show ?thesis
      using wf_state_row [OF assms True]
      by (simp add: same_color_at_def owned_by_def on_board_def p)
  next
    case False
    then show ?thesis
      by (auto simp add: same_color_at_def owned_by_def on_board_def p)
  qed
qed

lemma placed_loop_wf:
  assumes "wf_state s"
  shows "placed_loop s row_off col_off cells acc =
           Inr (if \<forall>(r, c) \<in> set cells. on_board (r + row_off, c + col_off)
                      \<and> cell_at s (r + row_off, c + col_off) = None
                then Some (acc @ map (\<lambda>(r, c). (r + row_off, c + col_off)) cells) else None)"
proof (induction cells arbitrary: acc)
  case Nil
  then show ?case by simp
next
  case (Cons rc cells)
  obtain r c where rc: "rc = (r, c)" by (cases rc)
  show ?case
  proof (cases "on_board (r + row_off, c + col_off)")
    case True
    then show ?thesis
      using wf_state_row [OF assms True] Cons.IH
      by (auto simp add: rc on_board_def Let_def)
  next
    case False
    then show ?thesis
      by (auto simp add: rc on_board_def Let_def)
  qed
qed

lemma edge_loop_wf:
  assumes "wf_state s"
  shows "edge_loop s color sq ds =
           Inr (\<exists>d \<in> set ds. owned_by s color (fst sq + fst d, snd sq + snd d))"
  by (induction ds) (simp_all add: same_color_at_wf [OF assms])

lemma corner_loop_wf:
  assumes "wf_state s"
  shows "corner_loop s color sq ds flag =
           Inr (flag \<or> (\<exists>d \<in> set ds. owned_by s color (fst sq + fst d, snd sq + snd d)))"
  by (induction ds arbitrary: flag) (auto simp add: same_color_at_wf [OF assms])

lemma adjacency_loop_wf:
  assumes "wf_state s"
  shows "adjacency_loop s color sqs flag =
           Inr (\<not> (\<exists>sq \<in> set sqs. \<exists>d \<in> set edge_neighbors.
                      owned_by s color (fst sq + fst d, snd sq + snd d))
                \<and> (flag \<or> (\<exists>sq \<in> set sqs. \<exists>d \<in> set corner_neighbors.
                      owned_by s color (fst sq + fst d, snd sq + snd d))))"
proof (induction sqs arbitrary: flag)
  case Nil
  then show ?case by simp
next
  case (Cons sq sqs)
  show ?case
    by (auto simp add: edge_loop_wf [OF assms] corner_loop_wf [OF assms] Cons.IH)
qed

lemma edge_neighbors_iff:
  "(\<exists>d \<in> set edge_neighbors. P (fst p + fst d, snd p + snd d)) \<longleftrightarrow> (\<exists>q. P q \<and> edge_adjacent p q)"
proof
  assume "\<exists>d \<in> set edge_neighbors. P (fst p + fst d, snd p + snd d)"
  then obtain d where d: "d \<in> set edge_neighbors" "P (fst p + fst d, snd p + snd d)" by blast
  then have "edge_adjacent p (fst p + fst d, snd p + snd d)"
    by (auto simp: edge_neighbors_def edge_adjacent_def)
  with d show "\<exists>q. P q \<and> edge_adjacent p q" by blast
next
  assume "\<exists>q. P q \<and> edge_adjacent p q"
  then obtain q where q: "P q" "edge_adjacent p q" by blast
  define d where "d = (fst q - fst p, snd q - snd p)"
  have "d \<in> set edge_neighbors"
    using q(2) unfolding d_def edge_neighbors_def edge_adjacent_def by (simp; arith)
  moreover have "(fst p + fst d, snd p + snd d) = q" by (simp add: d_def)
  ultimately show "\<exists>d \<in> set edge_neighbors. P (fst p + fst d, snd p + snd d)"
    using q(1) by metis
qed

lemma corner_neighbors_iff:
  "(\<exists>d \<in> set corner_neighbors. P (fst p + fst d, snd p + snd d))
     \<longleftrightarrow> (\<exists>q. P q \<and> diagonally_adjacent p q)"
proof
  assume "\<exists>d \<in> set corner_neighbors. P (fst p + fst d, snd p + snd d)"
  then obtain d where d: "d \<in> set corner_neighbors" "P (fst p + fst d, snd p + snd d)" by blast
  then have "diagonally_adjacent p (fst p + fst d, snd p + snd d)"
    by (auto simp: corner_neighbors_def diagonally_adjacent_def)
  with d show "\<exists>q. P q \<and> diagonally_adjacent p q" by blast
next
  assume "\<exists>q. P q \<and> diagonally_adjacent p q"
  then obtain q where q: "P q" "diagonally_adjacent p q" by blast
  define d where "d = (fst q - fst p, snd q - snd p)"
  have "d \<in> set corner_neighbors"
    using q(2) unfolding d_def corner_neighbors_def diagonally_adjacent_def by (simp; arith)
  moreover have "(fst p + fst d, snd p + snd d) = q" by (simp add: d_def)
  ultimately show "\<exists>d \<in> set corner_neighbors. P (fst p + fst d, snd p + snd d)"
    using q(1) by metis
qed


lemma placed_cells_sorted_list:
  assumes "finite shape_coords"
  shows "set (map (\<lambda>(r, c). (r + row_off, c + col_off)) (sorted_list_of_set shape_coords))
           = placed_cells (piece_id, row_off, col_off, shape_coords)"
  using assms by (simp add: placed_cells_def Let_def)

lemma placed_loop_placed_cells:
  assumes "wf_state s" "finite shape_coords"
  shows "placed_loop s row_off col_off (sorted_list_of_set shape_coords) [] =
           Inr (if \<forall>p \<in> placed_cells (piece_id, row_off, col_off, shape_coords).
                     on_board p \<and> cell_at s p = None
                then Some (map (\<lambda>(r, c). (r + row_off, c + col_off))
                            (sorted_list_of_set shape_coords))
                else None)"
  using assms(2) by (auto simp add: placed_loop_wf [OF assms(1)] placed_cells_def)

text \<open>
  Claim C4: for a placement by a colour whose \<open>moves_made\<close> count is 0, with the piece
  available and all placed cells on the board and empty, \<open>check_legal_move\<close> accepts
  if and only if the placed cells include that colour's corner of \<open>CORNER_POSITIONS\<close>;
  no adjacency condition takes part.
\<close>

theorem first_move_corner_rule:
  assumes "wf_state s" and "finite shape_coords"
    and "moves_made s ! nat (current_player s) = 0"
    and "piece_id \<in> pieces_remaining s ! nat (current_player s)"
    and "\<forall>p \<in> placed_cells (piece_id, row_off, col_off, shape_coords).
           on_board p \<and> cell_at s p = None"
  shows "check_legal_move s (piece_id, row_off, col_off, shape_coords) =
           Inr (CORNER_POSITIONS ! nat (current_player s)
                  \<in> placed_cells (piece_id, row_off, col_off, shape_coords))"
proof -
  have color: "0 \<le> current_player s" "current_player s < 4"
    and lens: "length (pieces_remaining s) = 4" "length (moves_made s) = 4"
    using assms(1) by (simp_all add: wf_state_def)
  have "length CORNER_POSITIONS = 4"
    by (simp add: CORNER_POSITIONS_def)
  then show ?thesis
    using color lens assms(2,3,4,5)
    by (simp add: check_legal_move_def py_get_in_range
        placed_loop_placed_cells [OF assms(1,2), of row_off col_off piece_id])
      (simp add: placed_cells_def Let_def)
qed

text \<open>
  Claim C5: for a placement by a colour that has already moved (piece available, all placed
  cells on the board and empty), \<open>check_legal_move\<close> rejects when some placed cell
  shares an edge with a cell the colour already owns, and otherwise accepts if and only if
  some placed cell touches such a cell diagonally.
\<close>

theorem later_move_adjacency_rule:
  assumes "wf_state s" and "finite shape_coords"
    and "moves_made s ! nat (current_player s) \<noteq> 0"
    and "piece_id \<in> pieces_remaining s ! nat (current_player s)"
    and "\<forall>p \<in> placed_cells (piece_id, row_off, col_off, shape_coords).
           on_board p \<and> cell_at s p = None"
  shows "check_legal_move s (piece_id, row_off, col_off, shape_coords) =
           Inr (\<not> touches_edge s (current_player s)
                      (placed_cells (piece_id, row_off, col_off, shape_coords))
                \<and> touches_corner s (current_player s)
                      (placed_cells (piece_id, row_off, col_off, shape_coords)))"
proof -
  have color: "0 \<le> current_player s" "current_player s < 4"
    and lens: "length (pieces_remaining s) = 4" "length (moves_made s) = 4"
    using assms(1) by (simp_all add: wf_state_def)
  show ?thesis
    using color lens assms(2,3,4,5)
    by (simp add: check_legal_move_def py_get_in_range
        placed_loop_placed_cells [OF assms(1,2), of row_off col_off piece_id]
        adjacency_loop_wf [OF assms(1)] edge_neighbors_iff corner_neighbors_iff
        touches_edge_def touches_corner_def)
      (simp add: placed_cells_def Let_def)
qed

lemma py_index_Some_iff: "(\<exists>j. py_index n i = Some j) \<longleftrightarrow> - int n \<le> i \<and> i < int n"
  by (auto simp: py_index_def)

lemma py_index_less: "py_index n i = Some j \<Longrightarrow> j < n"
  by (auto simp: py_index_def split: if_splits)

lemma place_cell_step:
  assumes "grid_ok grid"
  shows "ebind (py_get grid rr) (\<lambda>row. ebind (py_set row cc (Some color)) (\<lambda>row'. py_set grid rr row'))
           = (if index_ok (rr, cc)
              then Inr (grid[the (py_index 20 rr) := (grid ! the (py_index 20 rr))[the (py_index 20 cc) := Some color]])
              else Inl IndexError)"
proof -
  have len: "length grid = 20" using assms by (simp add: grid_ok_def)
  show ?thesis
  proof (cases "py_index 20 rr")
    case None
    then have "\<not> index_ok (rr, cc)"
      using py_index_Some_iff [of 20 rr] by (auto simp: index_ok_def)
    with None show ?thesis by (simp add: py_get_def len)
  next
    case (Some j)
    then have j: "j < 20" by (rule py_index_less)
    then have "grid ! j \<in> set grid" using len by simp
    then have row: "length (grid ! j) = 20" using assms by (simp add: grid_ok_def)
    have rr: "- 20 \<le> rr \<and> rr < 20"
      using py_index_Some_iff [of 20 rr] Some by auto
    show ?thesis
    proof (cases "py_index 20 cc")
      case None
      then have "\<not> index_ok (rr, cc)"
        using py_index_Some_iff [of 20 cc] by (auto simp: index_ok_def)
      with None Some show ?thesis by (simp add: py_get_def py_set_def len row)
    next
      case (Some k)
      then have "- 20 \<le> cc \<and> cc < 20"
        using py_index_Some_iff [of 20 cc] by auto
      with rr have "index_ok (rr, cc)" by (simp add: index_ok_def)
      with Some \<open>py_index 20 rr = Some j\<close> show ?thesis
        by (simp add: py_get_def py_set_def len row)
    qed
  qed
qed

lemma place_cells_Cons:
  "place_cells color row_off col_off ((r, c) # rest) grid =
     ebind (ebind (py_get grid (r + row_off)) (\<lambda>row.
              ebind (py_set row (c + col_off) (Some color)) (\<lambda>row'. py_set grid (r + row_off) row')))
       (place_cells color row_off col_off rest)"
  by (simp add: ebind_def Let_def split: sum.splits)

lemma grid_ok_update:
  assumes "grid_ok grid" "j < 20"
  shows "grid_ok (grid[j := (grid ! j)[k := v]])"
  using assms unfolding grid_ok_def
  by (auto dest!: set_update_subset_insert [THEN subsetD])

lemma place_cells_wf:
  assumes "grid_ok grid"
  shows "if \<forall>(r, c) \<in> set cells. index_ok (r + row_off, c + col_off)
         then \<exists>grid'. place_cells color row_off col_off cells grid = Inr grid' \<and> grid_ok grid'
         else place_cells color row_off col_off cells grid = Inl IndexError"
  using assms
proof (induction cells arbitrary: grid)
  case Nil
  then show ?case by simp
next
  case (Cons rc cells)
  obtain r c where rc: "rc = (r, c)" by (cases rc)
  show ?case
  proof (cases "index_ok (r + row_off, c + col_off)")
    case False
    then show ?thesis
      unfolding rc place_cells_Cons place_cell_step [OF Cons.prems] by simp
  next
    case True
    define grid1 where "grid1 = grid[the (py_index 20 (r + row_off)) :=
        (grid ! the (py_index 20 (r + row_off)))[the (py_index 20 (c + col_off)) := Some color]]"
    obtain j where j: "py_index 20 (r + row_off) = Some j"
      using True py_index_Some_iff [of 20 "r + row_off"] by (auto simp: index_ok_def)
    have ok1: "grid_ok grid1"
      unfolding grid1_def using grid_ok_update [OF Cons.prems py_index_less [OF j]] j by simp
    have step: "place_cells color row_off col_off (rc # cells) grid
                  = place_cells color row_off col_off cells grid1"
      unfolding rc place_cells_Cons place_cell_step [OF Cons.prems] grid1_def
      using True by simp
    show ?thesis
      using Cons.IH [OF ok1] True by (simp add: step) (simp add: rc)
  qed
qed


lemma wf_state_grid_ok: "wf_state s \<Longrightarrow> grid_ok (board_grid s)"
  by (simp add: wf_state_def grid_ok_def list_all_iff)

lemma clone_id [simp]: "clone s = s"
  by (simp add: clone_def)

lemma placed_cells_index_ok:
  assumes "finite shape_coords"
  shows "(\<forall>(r, c) \<in> set (sorted_list_of_set shape_coords). index_ok (r + row_off, c + col_off))
           \<longleftrightarrow> (\<forall>p \<in> placed_cells (piece_id, row_off, col_off, shape_coords). index_ok p)"
  using assms by (auto simp: placed_cells_def)

lemma py_index_wrap:
  assumes "- 20 \<le> i" and "i < 20"
  shows "py_index 20 i = Some (nat (i mod 20))"
proof (cases "0 \<le> i")
  case True
  then show ?thesis using assms by (simp add: py_index_def)
next
  case False
  have shifted: "(i + 20) mod 20 = i + 20"
    using assms(1) False by (intro mod_pos_pos_trivial) simp_all
  have same: "(i + 20) mod 20 = i mod 20"
    by simp
  have "i mod 20 = 20 + i"
    using shifted unfolding same by simp
  then show ?thesis using assms(1) False by (simp add: py_index_def)
qed

lemma written_grid_empty:
  assumes "grid_ok grid"
  shows "written_grid color {} grid = grid"
proof (rule nth_equalityI)
  show len: "length (written_grid color {} grid) = length grid"
    using assms by (simp add: written_grid_def grid_ok_def)
  fix i assume "i < length (written_grid color {} grid)"
  then have i: "i < 20" by (simp add: written_grid_def)
  then have "grid ! i \<in> set grid" using assms by (simp add: grid_ok_def)
  then have row: "length (grid ! i) = 20" using assms by (simp add: grid_ok_def)
  have "map (\<lambda>j. grid ! i ! j) [0..<20] = grid ! i"
    using map_nth [of "grid ! i"] by (simp only: row)
  then show "written_grid color {} grid ! i = grid ! i"
    using i by (simp add: written_grid_def)
qed

lemma written_grid_step:
  assumes "grid_ok grid" and "j < 20" and "k < 20"
  shows "written_grid color landed (grid[j := (grid ! j)[k := Some color]])
           = written_grid color (insert (j, k) landed) grid"
proof -
  have len: "length grid = 20" using assms(1) by (simp add: grid_ok_def)
  have row: "length (grid ! i) = 20" if "i < 20" for i
  proof -
    from that have "grid ! i \<in> set grid" using len by simp
    then show ?thesis using assms(1) by (simp add: grid_ok_def)
  qed
  have cell: "grid[j := (grid ! j)[k := Some color]] ! i ! l
                = (if (i, l) = (j, k) then Some color else grid ! i ! l)"
    if "i < 20" "l < 20" for i l
    using that assms(2,3) len row [of j] by (simp add: nth_list_update)
  show ?thesis
    unfolding written_grid_def
    by (rule map_cong [OF refl], rule map_cong [OF refl]) (simp add: cell)
qed

lemma place_cells_written:
  assumes "grid_ok grid"
    and "\<forall>(r, c) \<in> set cells. index_ok (r + row_off, c + col_off)"
  shows "place_cells color row_off col_off cells grid
           = Inr (written_grid color
                    (wrap_cell ` (\<lambda>(r, c). (r + row_off, c + col_off)) ` set cells) grid)"
  using assms
proof (induction cells arbitrary: grid)
  case Nil
  then show ?case by (simp add: written_grid_empty)
next
  case (Cons rc cells)
  obtain r c where rc: "rc = (r, c)" by (cases rc)
  define j where "j = nat ((r + row_off) mod 20)"
  define k where "k = nat ((c + col_off) mod 20)"
  define grid1 where "grid1 = grid[j := (grid ! j)[k := Some color]]"
  have ok: "index_ok (r + row_off, c + col_off)"
    using Cons.prems(2) by (simp add: rc)
  then have idx: "py_index 20 (r + row_off) = Some j" "py_index 20 (c + col_off) = Some k"
    by (simp_all add: index_ok_def py_index_wrap j_def k_def)
  have less: "j < 20" "k < 20"
    using idx by (auto dest: py_index_less)
  have ok1: "grid_ok grid1"
    unfolding grid1_def by (rule grid_ok_update [OF Cons.prems(1) less(1)])
  have step: "place_cells color row_off col_off (rc # cells) grid
                = place_cells color row_off col_off cells grid1"
    unfolding rc place_cells_Cons place_cell_step [OF Cons.prems(1)] grid1_def
    using ok idx by simp
  have rest: "\<forall>(r, c) \<in> set cells. index_ok (r + row_off, c + col_off)"
    using Cons.prems(2) by simp
  have landed: "wrap_cell (r + row_off, c + col_off) = (j, k)"
    by (simp add: wrap_cell_def j_def k_def)
  have "place_cells color row_off col_off (rc # cells) grid
          = Inr (written_grid color
                   (wrap_cell ` (\<lambda>(r, c). (r + row_off, c + col_off)) ` set cells) grid1)"
    using step Cons.IH [OF ok1 rest] by simp
  also have "written_grid color
               (wrap_cell ` (\<lambda>(r, c). (r + row_off, c + col_off)) ` set cells) grid1
             = written_grid color
                 (insert (j, k) (wrap_cell ` (\<lambda>(r, c). (r + row_off, c + col_off)) ` set cells))
                 grid"
    unfolding grid1_def by (rule written_grid_step [OF Cons.prems(1) less])
  finally show ?case
    by (simp add: rc landed)
qed

text \<open>
  Claim C3, as amended: \<open>apply_move\<close> makes no legality check. On a well-formed state
  (a grid of 20 rows of 20 cells, four hands, four move counters, a player to move from
  0 to 3) and a placement with finitely many cells, it raises \<open>KeyError\<close> when the piece
  is not in the hand of the player to move, and \<open>IndexError\<close> when the piece is in the
  hand and some placed cell has a row or column subscript outside \<open>-20 .. 19\<close>. For
  every other placement, legal or not, it returns the state in which the cells that the
  placed cells land on (row and column modulo 20) hold the colour of the player to move
  and every other cell is as it was, the piece is taken out of that player's hand, that
  player's move counter is one higher, the count of consecutive passes is 0, and the
  next colour is to move.
\<close>

theorem apply_move_raises_iff:
  assumes "wf_state s" and "finite shape_coords"
  shows "(piece_id \<notin> pieces_remaining s ! nat (current_player s)
            \<longrightarrow> apply_move s (Some (piece_id, row_off, col_off, shape_coords)) = Inl KeyError)
       \<and> (piece_id \<in> pieces_remaining s ! nat (current_player s)
            \<and> \<not> (\<forall>p \<in> placed_cells (piece_id, row_off, col_off, shape_coords). index_ok p)
            \<longrightarrow> apply_move s (Some (piece_id, row_off, col_off, shape_coords)) = Inl IndexError)
       \<and> (piece_id \<in> pieces_remaining s ! nat (current_player s)
            \<and> (\<forall>p \<in> placed_cells (piece_id, row_off, col_off, shape_coords). index_ok p)
            \<longrightarrow> apply_move s (Some (piece_id, row_off, col_off, shape_coords))
                  = Inr \<lparr>board_grid =
                           written_grid (current_player s)
                             (wrap_cell ` placed_cells (piece_id, row_off, col_off, shape_coords))
                             (board_grid s),
                         pieces_remaining =
                           (pieces_remaining s)[nat (current_player s) :=
                              pieces_remaining s ! nat (current_player s) - {piece_id}],
                         current_player = (current_player s + 1) mod 4,
                         moves_made =
                           (moves_made s)[nat (current_player s) :=
                              moves_made s ! nat (current_player s) + 1],
                         consecutive_passes = 0\<rparr>)"
proof -
  have color: "0 \<le> current_player s" "current_player s < 4"
    and lens: "length (pieces_remaining s) = 4" "length (moves_made s) = 4"
    using assms(1) by (simp_all add: wf_state_def)
  have idx: "py_index 4 (current_player s) = Some (nat (current_player s))"
    using color by (simp add: py_index_def)
  have cells: "set (sorted_list_of_set shape_coords) = shape_coords"
    using assms(2) by simp
  note ok = wf_state_grid_ok [OF assms(1)]
  show ?thesis
  proof (cases "\<forall>p \<in> placed_cells (piece_id, row_off, col_off, shape_coords). index_ok p")
    case True
    then have "\<forall>(r, c) \<in> set (sorted_list_of_set shape_coords).
                 index_ok (r + row_off, c + col_off)"
      using placed_cells_index_ok [OF assms(2), of row_off col_off piece_id] by simp
    from place_cells_written [OF ok this, of "current_player s"]
    have "place_cells (current_player s) row_off col_off (sorted_list_of_set shape_coords)
            (board_grid s)
          = Inr (written_grid (current_player s)
                   (wrap_cell ` placed_cells (piece_id, row_off, col_off, shape_coords))
                   (board_grid s))"
      by (simp only: cells placed_cells_def prod.case)
    with True show ?thesis
      by (simp add: apply_move_def py_get_def py_set_def lens idx Let_def)
  next
    case False
    then have
      "place_cells (current_player s) row_off col_off (sorted_list_of_set shape_coords)
         (board_grid s) = Inl IndexError"
      using place_cells_wf [OF ok, of "sorted_list_of_set shape_coords" row_off col_off
          "current_player s"]
        placed_cells_index_ok [OF assms(2), of row_off col_off piece_id] by auto
    with False show ?thesis
      by (simp add: apply_move_def py_get_def py_set_def lens idx Let_def)
  qed
qed

theorem apply_move_raises_iff_witness:
  "apply_move new_BoardState (Some (21, 0, 0, {(0, 0)})) = Inl KeyError
   \<and> apply_move new_BoardState (Some (0, 20, 0, {(0, 0)})) = Inl IndexError
   \<and> apply_move new_BoardState (Some (0, - 1, 5, {(0, 0)}))
       = Inr \<lparr>board_grid = written_grid 0 {(19, 5)} (replicate 20 (replicate 20 None)),
              pieces_remaining = [{1..20}, {0..20}, {0..20}, {0..20}],
              current_player = 1,
              moves_made = [1, 0, 0, 0],
              consecutive_passes = 0\<rparr>"
proof -
  have hand: "{0..20} - {0} = {1..20::int}" by auto
  show ?thesis
    using apply_move_raises_iff [OF wf_new_BoardState, of "{(0, 0)}" 21 0 0]
      apply_move_raises_iff [OF wf_new_BoardState, of "{(0, 0)}" 0 20 0]
      apply_move_raises_iff [OF wf_new_BoardState, of "{(0, 0)}" 0 "- 1" 5]
    by (simp add: new_BoardState_def NUM_PLAYERS_def BOARD_SIZE_def placed_cells_def
        index_ok_def wrap_cell_def hand replicate_four)
qed

text \<open>
  Claim C3 as stated fails: on the opening position, the single square placed at row 5,
  column 5 misses the corner and is rejected by \<open>check_legal_move\<close>, yet
  \<open>apply_move\<close> returns a state.
\<close>

theorem apply_move_illegal_counterexample:
  "check_legal_move new_BoardState (0, 5, 5, {(0, 0)}) = Inr False
   \<and> \<not> isl (apply_move new_BoardState (Some (0, 5, 5, {(0, 0)})))"
  by (simp add: check_legal_move_def apply_move_def new_BoardState_def NUM_PLAYERS_def
      BOARD_SIZE_def py_get_def py_set_def py_index_def CORNER_POSITIONS_def)

lemma wf_after_corner: "wf_state after_corner"
  by (simp add: after_corner_def wf_state_def list_all_iff)
    (auto dest!: set_update_subset_insert [THEN subsetD])

lemma owned_after_corner: "owned_by after_corner 0 q \<longleftrightarrow> q = (0, 0)"
proof -
  obtain r c where q: "q = (r, c)" by (cases q)
  have "nat r < 20 \<and> nat c < 20" if "on_board q"
    using that by (auto simp: on_board_def BOARD_SIZE_def q)
  then show ?thesis
    by (auto simp: owned_by_def cell_at_def after_corner_def q on_board_def BOARD_SIZE_def
        nth_list_update)
qed

theorem first_move_corner_rule_witness:
  "check_legal_move new_BoardState (0, 0, 0, {(0, 0)}) = Inr True
   \<and> check_legal_move new_BoardState (0, 5, 5, {(0, 0)}) = Inr False"
  using first_move_corner_rule [of new_BoardState "{(0, 0)}" 0 0 0]
    first_move_corner_rule [of new_BoardState "{(0, 0)}" 0 5 5] wf_new_BoardState
  by (simp add: new_BoardState_def NUM_PLAYERS_def BOARD_SIZE_def placed_cells_def on_board_def cell_at_def CORNER_POSITIONS_def)

lemma after_corner_empty:
  "on_board p \<Longrightarrow> p \<noteq> (0, 0) \<Longrightarrow> cell_at after_corner p = None"
  by (cases p) (auto simp: cell_at_def after_corner_def on_board_def BOARD_SIZE_def nth_list_update)

theorem later_move_adjacency_rule_witness:
  "check_legal_move after_corner (1, 1, 1, {(0, 0), (0, 1)}) = Inr True
   \<and> check_legal_move after_corner (1, 0, 1, {(0, 0), (0, 1)}) = Inr False
   \<and> check_legal_move after_corner (1, 5, 5, {(0, 0), (0, 1)}) = Inr False"
proof -
  have avail: "(1::int) \<in> pieces_remaining after_corner ! nat (current_player after_corner)"
    and made: "moves_made after_corner ! nat (current_player after_corner) \<noteq> 0"
    and color: "current_player after_corner = 0"
    by (simp_all add: after_corner_def)
  have free: "\<forall>p \<in> placed_cells (1, ro, co, {(0, 0), (0, 1)}). on_board p \<and> cell_at after_corner p = None"
    if "(ro, co) \<in> {(1, 1), (0, 1), (5, 5)}" for ro co
    using that by (auto simp: placed_cells_def on_board_def BOARD_SIZE_def intro!: after_corner_empty)
  have "check_legal_move after_corner (1, 1, 1, {(0, 0), (0, 1)}) = Inr True"
    using later_move_adjacency_rule [OF wf_after_corner _ made avail free, of 1 1]
    by (simp add: touches_edge_def touches_corner_def owned_after_corner placed_cells_def
        edge_adjacent_def diagonally_adjacent_def color)
  moreover have "check_legal_move after_corner (1, 0, 1, {(0, 0), (0, 1)}) = Inr False"
    using later_move_adjacency_rule [OF wf_after_corner _ made avail free, of 0 1]
    by (simp add: touches_edge_def touches_corner_def owned_after_corner placed_cells_def
        edge_adjacent_def diagonally_adjacent_def color)
  moreover have "check_legal_move after_corner (1, 5, 5, {(0, 0), (0, 1)}) = Inr False"
    using later_move_adjacency_rule [OF wf_after_corner _ made avail free, of 5 5]
    by (simp add: touches_edge_def touches_corner_def owned_after_corner placed_cells_def
        edge_adjacent_def diagonally_adjacent_def color)
  ultimately show ?thesis by simp
qed

section \<open>The orientations of a shape\<close>




lemma proper_translate [simp]: "proper (translate v S) \<longleftrightarrow> proper S"
  by (auto simp: proper_def translate_def inj_on_def dest!: finite_imageD)




lemma fst_translate: "fst ` translate v S = (\<lambda>x. x + fst v) ` (fst ` S)"
  by (force simp: translate_def image_image split_def)

lemma snd_translate: "snd ` translate v S = (\<lambda>x. x + snd v) ` (snd ` S)"
  by (force simp: translate_def image_image split_def)

lemma Min_fst_translate:
  assumes "proper S"
  shows "Min (fst ` translate v S) = Min (fst ` S) + fst v"
  using assms Min_add_commute [of "fst ` S" "\<lambda>x. x" "fst v"]
  by (simp add: fst_translate proper_def)

lemma Min_snd_translate:
  assumes "proper S"
  shows "Min (snd ` translate v S) = Min (snd ` S) + snd v"
  using assms Min_add_commute [of "snd ` S" "\<lambda>x. x" "snd v"]
  by (simp add: snd_translate proper_def)

lemma translate_translate: "translate v (translate w S) = translate (fst v + fst w, snd v + snd w) S"
  by (auto simp: translate_def image_image split_def intro!: image_eqI)

lemma translate_zero [simp]: "translate (0, 0) S = S"
  by (simp add: translate_def)

lemma nrm_translate:
  assumes "proper S"
  shows "nrm (translate v S) = nrm S"
  unfolding nrm_def [of "translate v S"] Min_fst_translate [OF assms] Min_snd_translate [OF assms]
    translate_translate
  by (simp add: nrm_def)


lemma nrm_idem:
  assumes "proper S"
  shows "nrm (nrm S) = nrm S"
  using nrm_translate [OF assms] by (simp add: nrm_def [of S])

























section \<open>Selection\<close>

text \<open>
  Claim C1 says that selection maximizes the score whose prior is the one stored at the
  parent for the child's action. \<open>ucb_score\<close> reads \<open>child.priors\<close> instead, the
  dictionary of the child's own children. On the node below both children are visited
  once with value 0 and have empty dictionaries, so both get the score 0 and the loop keeps
  the first, the placement child; by the specification's score, the pass child (prior
  0.75 against 0.25) is strictly better.
\<close>

theorem ucb_score_reads_child_priors:
  "best_child (two_visited_children st st1 st2) 1 = Inr (Some (0, visited_placement st1))
   \<and> select 1 (two_visited_children st st1 st2) = Inr ([0], visited_placement st1)
   \<and> spec_score (two_visited_children st st1 st2) (PieceKey 0 0) (visited_placement st1) 1
       < spec_score (two_visited_children st st1 st2) PassKey (visited_pass st2) 1"
proof -
  have best: "best_child (two_visited_children st st1 st2) 1 = Inr (Some (0, visited_placement st1))"
    by (simp add: best_child_def two_visited_children_def visited_placement_def visited_pass_def
        ucb_score_def mean_value_def dict_get_def)
  have stop: "select 1 (visited_placement st1) = Inr ([], visited_placement st1)"
    by (subst select.simps) (simp add: visited_placement_def)
  have "select 1 (two_visited_children st st1 st2) = Inr ([0], visited_placement st1)"
  proof -
    have "expanded (two_visited_children st st1 st2)
            \<and> children (two_visited_children st st1 st2) \<noteq> []"
      by (simp add: two_visited_children_def)
    then show ?thesis
      by (subst select.simps) (simp add: best stop)
  qed
  moreover have "spec_score (two_visited_children st st1 st2) (PieceKey 0 0) (visited_placement st1) 1
       < spec_score (two_visited_children st st1 st2) PassKey (visited_pass st2) 1"
    by (simp add: spec_score_def two_visited_children_def visited_placement_def visited_pass_def
        mean_value_def dict_get_def)
  ultimately show ?thesis using best by simp
qed

section \<open>The search loop: visit counts\<close>

lemma select_leaf: "\<not> (expanded n \<and> children n \<noteq> []) \<Longrightarrow> select c n = Inr ([], n)"
  by (subst select.simps) auto

lemma select_inner:
  assumes "expanded n" "children n \<noteq> []" "select c n = Inr (p, leaf)"
  shows "\<exists>i child rest. best_child n c = Inr (Some (i, child)) \<and> p = i # rest
           \<and> select c child = Inr (rest, leaf)"
  using assms(3) by (subst (asm) select.simps)
    (auto simp: assms(1,2) split: sum.splits option.splits prod.splits)

lemma select_Nil: "select c n = Inr ([], leaf) \<Longrightarrow> leaf = n"
  by (subst (asm) select.simps) (auto split: if_splits sum.splits option.splits prod.splits)

lemma best_loop_position:
  "best_loop node c i cs (s, b) = Inr (s', Some (j, ch)) \<Longrightarrow>
   (\<forall>k x. b = Some (k, x) \<longrightarrow> k < i \<and> k < length cs0 \<and> snd (cs0 ! k) = x) \<Longrightarrow>
   cs = drop i cs0 \<Longrightarrow>
   j < length cs0 \<and> snd (cs0 ! j) = ch"
proof (induction node c i cs "(s, b)" arbitrary: s b rule: best_loop.induct)
  case (1 node c_puct i best)
  then show ?case by auto
next
  case (2 node c_puct i action_key child rest best_score best)
  have i: "i < length cs0" "cs0 ! i = (action_key, child)" "rest = drop (Suc i) cs0"
    using "2.prems"(3)
    by (metis drop_eq_Nil linorder_not_less list.distinct(1),
        metis Cons_nth_drop_Suc drop_eq_Nil linorder_not_less list.distinct(1) list.inject,
        metis drop_Suc list.sel(3) tl_drop)
  obtain sc where sc: "ucb_score node child c_puct = Inr sc"
    using "2.prems"(1) by (auto split: sum.splits)
  show ?case
  proof (cases "score_gt sc best_score")
    case True
    then have "best_loop node c_puct (Suc i) rest (sc, Some (i, child)) = Inr (s', Some (j, ch))"
      using "2.prems"(1) sc by simp
    from "2.hyps"(1) [OF sc True this _ i(3)] i show ?thesis by simp
  next
    case False
    then have "best_loop node c_puct (Suc i) rest (best_score, best) = Inr (s', Some (j, ch))"
      using "2.prems"(1) sc by simp
    from "2.hyps"(2) [OF sc False this _ i(3)] "2.prems"(2) show ?thesis
      by (auto simp: less_Suc_eq)
  qed
qed

lemma best_child_position:
  assumes "best_child n c = Inr (Some (i, child))"
  shows "i < length (children n) \<and> snd (children n ! i) = child"
proof -
  from assms obtain s where
    "best_loop n c 0 (children n) (Finite (- 999999), None) = Inr (s, Some (i, child))"
    by (auto simp: best_child_def split: sum.splits prod.splits)
  from best_loop_position [OF this, of "children n"] show ?thesis by simp
qed


lemma visit_count_backup_step [simp]: "visit_count (backup_step v n) = visit_count n + 1"
  by (simp add: backup_step_def)

lemma children_backup_step [simp]: "children (backup_step v n) = children n"
  by (simp add: backup_step_def)

lemma expanded_backup_step [simp]: "expanded (backup_step v n) = expanded n"
  by (simp add: backup_step_def)

lemma visit_count_backup_value: "visit_count (backup_value p v n) = visit_count n + 1"
  by (cases p) simp_all

lemma visit_count_store_at:
  assumes "select c n = Inr (p, leaf)" and "visit_count new = visit_count leaf"
  shows "visit_count (store_at p new n) = visit_count n"
proof (cases p)
  case Nil
  then show ?thesis using assms select_Nil [of c n leaf] by simp
next
  case (Cons i rest)
  then show ?thesis by simp
qed

lemma length_map_at [simp]: "length (map_at i f xs) = length xs"
  by (induction i f xs rule: map_at.induct) simp_all

lemma map_at_nth:
  "i < length xs \<Longrightarrow> map_at i f xs = take i xs @ f (xs ! i) # drop (Suc i) xs"
  by (induction i f xs rule: map_at.induct) simp_all

lemma map_at_map_at: "map_at i f (map_at i g xs) = map_at i (\<lambda>x. f (g x)) xs"
  by (induction i g xs rule: map_at.induct) simp_all

lemma children_visits_map_at:
  assumes "i < length chs"
    and "visit_count (snd (f (chs ! i))) = visit_count (snd (chs ! i)) + d"
  shows "sum_list (map (\<lambda>(key, child). visit_count child) (map_at i f chs))
           = sum_list (map (\<lambda>(key, child). visit_count child) chs) + d"
proof -
  have "chs = take i chs @ chs ! i # drop (Suc i) chs"
    using assms(1) by (simp add: id_take_nth_drop)
  then have "sum_list (map (\<lambda>(key, child). visit_count child) chs)
      = sum_list (map (\<lambda>(key, child). visit_count child) (take i chs))
        + visit_count (snd (chs ! i))
        + sum_list (map (\<lambda>(key, child). visit_count child) (drop (Suc i) chs))"
    by (metis (no_types, lifting) add.assoc case_prod_unfold list.simps(9) map_append
        sum_list.Cons sum_list_append)
  then show ?thesis
    using assms by (simp add: map_at_nth case_prod_unfold)
qed

lemma simulation_inner_counts:
  assumes exp: "expanded n" "children n \<noteq> []"
    and sel: "select c n = Inr (p, leaf)"
    and same: "visit_count new = visit_count leaf"
  shows "visit_count (backup_value p v (store_at p new n)) = visit_count n + 1"
    and "children_visits (backup_value p v (store_at p new n)) = children_visits n + 1"
    and "expanded (backup_value p v (store_at p new n))"
    and "children (backup_value p v (store_at p new n)) \<noteq> []"
proof -
  from select_inner [OF exp sel] obtain i child rest where
    best: "best_child n c = Inr (Some (i, child))" and p: "p = i # rest"
    and sel': "select c child = Inr (rest, leaf)"
    by blast
  from best_child_position [OF best] have i: "i < length (children n)"
    and child: "snd (children n ! i) = child" by simp_all
  show "visit_count (backup_value p v (store_at p new n)) = visit_count n + 1"
    by (simp add: p)
  show "expanded (backup_value p v (store_at p new n))"
    using exp by (simp add: p)
  show "children (backup_value p v (store_at p new n)) \<noteq> []"
    using exp(2) by (simp add: p) (metis length_map_at length_0_conv)
  have stored: "visit_count (store_at rest new child) = visit_count child"
    by (rule visit_count_store_at [OF sel' same])
  have "children (backup_value p v (store_at p new n)) =
          map_at i (\<lambda>(key, ch). (key, backup_value rest v (store_at rest new ch))) (children n)"
    unfolding p by (simp add: case_prod_unfold map_at_map_at)
  then show "children_visits (backup_value p v (store_at p new n)) = children_visits n + 1"
    unfolding children_visits_def
    using children_visits_map_at [OF i, of "\<lambda>(key, ch). (key, backup_value rest v (store_at rest new ch))" 1]
    by (simp add: case_prod_unfold child visit_count_backup_value stored)
qed


lemma expand_node_visit_count:
  "expand_node softmax n model = Inr n' \<Longrightarrow> visit_count n' = visit_count n"
  by (auto simp: expand_node_def ebind_def Let_def split: sum.splits prod.splits if_splits)

lemma expand_node_expanded:
  "expand_node softmax n model = Inr n' \<Longrightarrow> expanded n'"
  by (auto simp: expand_node_def ebind_def Let_def split: sum.splits prod.splits if_splits)

lemma set_alist_update: "set (AList.update k v xs) \<subseteq> insert (k, v) (set xs)"
  by (induction xs) auto

lemma placements_loop_unvisited:
  assumes "placements_loop st pid p idx mvs (chs, prs) = Inr (chs', prs')"
    and "\<forall>(key, ch) \<in> set chs. visit_count ch = 0"
  shows "\<forall>(key, ch) \<in> set chs'. visit_count ch = 0"
  using assms
proof (induction mvs arbitrary: idx chs prs)
  case Nil
  then show ?case by simp
next
  case (Cons mv mvs)
  from Cons.prems(1) obtain child_state where
    rest: "placements_loop st pid p (Suc idx) mvs
             (AList.update (PieceKey pid idx) (child_node child_state (PieceKey pid idx)) chs,
              AList.update (PieceKey pid idx) p prs) = Inr (chs', prs')"
    by (auto simp: ebind_def split: sum.splits)
  have "\<forall>(key, ch) \<in> set (AList.update (PieceKey pid idx)
           (child_node child_state (PieceKey pid idx)) chs). visit_count ch = 0"
    using Cons.prems(2)
      set_alist_update [of "PieceKey pid idx" "child_node child_state (PieceKey pid idx)" chs]
    by (auto simp: child_node_def)
  from Cons.IH [OF rest this] show ?case .
qed

lemma pieces_loop_unvisited:
  assumes "pieces_loop st d legal_moves pids (chs, prs) = Inr (chs', prs')"
    and "\<forall>(key, ch) \<in> set chs. visit_count ch = 0"
  shows "\<forall>(key, ch) \<in> set chs'. visit_count ch = 0"
  using assms
proof (induction pids arbitrary: chs prs)
  case Nil
  then show ?case by simp
next
  case (Cons pid pids)
  let ?placements = "filter (\<lambda>mv. fst mv = pid) legal_moves"
  show ?case
  proof (cases "?placements = []")
    case True
    then have "pieces_loop st d legal_moves pids (chs, prs) = Inr (chs', prs')"
      using Cons.prems(1) by (simp add: Let_def)
    from Cons.IH [OF this Cons.prems(2)] show ?thesis .
  next
    case False
    from False Cons.prems(1) obtain chs1 prs1 where
      first: "placements_loop st pid (dict_get d (Piece pid) 0 / real (length ?placements)) 0
                ?placements (chs, prs) = Inr (chs1, prs1)"
      and rest: "pieces_loop st d legal_moves pids (chs1, prs1) = Inr (chs', prs')"
      by (auto simp: Let_def ebind_def split: sum.splits)
    from Cons.IH [OF rest placements_loop_unvisited [OF first Cons.prems(2)]] show ?thesis .
  qed
qed

lemma sum_list_all_zero: "\<forall>x \<in> set xs. x = (0::int) \<Longrightarrow> sum_list xs = 0"
  by (induction xs) auto

lemma expand_node_fresh:
  assumes playing: "is_terminal (state n) = Inr False"
    and fresh: "children n = []"
    and run: "expand_node softmax n model = Inr n'"
  shows "children_visits n' = 0"
proof -
  from run playing obtain legal_moves legal_piece_ids piece_policy chs prs pass_state where
    loop: "pieces_loop (state n) piece_policy legal_moves (sorted_list_of_set legal_piece_ids)
                 (children n, priors n) = Inr (chs, prs)"
    and result: "n' = (if 0 < dict_get piece_policy Pass 0
               then MCTSNode (state n)
                      (AList.update PassKey (child_node pass_state PassKey) chs)
                      (visit_count n) (total_value n)
                      (AList.update PassKey (dict_get piece_policy Pass 0) prs) True
                      (last_action_key n)
               else MCTSNode (state n) chs (visit_count n) (total_value n)
                      prs True (last_action_key n))"
    by (auto simp: expand_node_def ebind_def Let_def split: sum.splits prod.splits)
  have unvisited: "\<forall>(key, ch) \<in> set chs. visit_count ch = 0"
    by (rule pieces_loop_unvisited [OF loop]) (simp add: fresh)
  have "\<forall>(key, ch) \<in> set (children n'). visit_count ch = 0"
  proof (cases "0 < dict_get piece_policy Pass 0")
    case True
    then have "children n' = AList.update PassKey (child_node pass_state PassKey) chs"
      by (simp add: result)
    then show ?thesis
      using unvisited set_alist_update [of PassKey "child_node pass_state PassKey" chs]
      by (auto simp: child_node_def)
  next
    case False
    then have "children n' = chs" by (simp add: result)
    then show ?thesis using unvisited by simp
  qed
  then have "\<forall>x \<in> set (map (\<lambda>(key, child). visit_count child) (children n')). x = 0"
    by auto
  then show "children_visits n' = 0"
    unfolding children_visits_def by (rule sum_list_all_zero)
qed

lemma simulation_first:
  assumes playing: "is_terminal (state n) = Inr False"
    and fresh: "children n = []" "\<not> expanded n"
    and run: "simulation softmax model c n = Inr n'"
  shows "visit_count n' = visit_count n + 1 \<and> children_visits n' = 0 \<and> expanded n'"
proof -
  have sel: "select c n = Inr ([], n)"
    using fresh by (simp add: select_leaf)
  from run obtain new v where
    new: "expand_node softmax n model = Inr new" and n': "n' = backup_step v new"
    using fresh(2) playing
    by (auto simp: simulation_def sel ebind_def split: sum.splits)
  show ?thesis
    using expand_node_fresh [OF playing fresh(1) new] expand_node_visit_count [OF new]
      expand_node_expanded [OF new]
    by (simp add: n' children_visits_def)
qed

lemma simulation_later:
  assumes exp: "expanded n" "children n \<noteq> []"
    and run: "simulation softmax model c n = Inr n'"
  shows "visit_count n' = visit_count n + 1 \<and> children_visits n' = children_visits n + 1
           \<and> expanded n' \<and> children n' \<noteq> []"
proof -
  from run obtain p leaf new v where
    sel: "select c n = Inr (p, leaf)"
    and new: "new = leaf \<or> expand_node softmax leaf model = Inr new"
    and n': "n' = backup_value p v (store_at p new n)"
    by (auto simp: simulation_def ebind_def split: sum.splits prod.splits if_splits)
  have same: "visit_count new = visit_count leaf"
    using new expand_node_visit_count by auto
  show ?thesis
    unfolding n' using simulation_inner_counts [OF exp sel same] by simp
qed

lemma simulation_childless:
  assumes exp: "expanded n" "children n = []"
    and run: "simulation softmax model c n = Inr n'"
  shows "visit_count n' = visit_count n + 1 \<and> expanded n' \<and> children n' = []"
proof -
  have sel: "select c n = Inr ([], n)"
    using exp by (simp add: select_leaf)
  from run obtain v where "n' = backup_step v n"
    using exp(1) by (auto simp: simulation_def sel ebind_def split: sum.splits)
  then show ?thesis using exp by simp
qed

lemma mcts_search_later:
  assumes "mcts_search softmax n model k c = Inr n'"
    and "expanded n" "children n \<noteq> []"
  shows "visit_count n' = visit_count n + int k \<and> children_visits n' = children_visits n + int k
           \<and> children n' \<noteq> []"
  using assms
proof (induction k arbitrary: n)
  case 0
  then show ?case by simp
next
  case (Suc k)
  from Suc.prems(1) obtain n1 where
    step: "simulation softmax model c n = Inr n1"
    and rest: "mcts_search softmax n1 model k c = Inr n'"
    by (auto simp: ebind_def split: sum.splits)
  from simulation_later [OF Suc.prems(2,3) step] Suc.IH [OF rest] show ?case
    by simp
qed

lemma mcts_search_childless:
  assumes "mcts_search softmax n model k c = Inr n'"
    and "expanded n" "children n = []"
  shows "visit_count n' = visit_count n + int k \<and> children n' = []"
  using assms
proof (induction k arbitrary: n)
  case 0
  then show ?case by simp
next
  case (Suc k)
  from Suc.prems(1) obtain n1 where
    step: "simulation softmax model c n = Inr n1"
    and rest: "mcts_search softmax n1 model k c = Inr n'"
    by (auto simp: ebind_def split: sum.splits)
  from simulation_childless [OF Suc.prems(2,3) step] Suc.IH [OF rest] show ?case
    by simp
qed

text \<open>
  Claim C2, as amended: for every budget of at least one simulation, every evaluator and
  every softmax, a search from a fresh non-terminal root that completes leaves a root
  whose own visit count is the budget: the first simulation stops at the root itself,
  expands it and is backed up to the root alone. When the root has children after the
  search, their visit counts sum to the budget minus one: every simulation after the
  first passes through exactly one child of the root. When it has none (the expansion
  found no legal placement and a pass probability that is not positive), the sum is 0.
\<close>

theorem mcts_search_visit_counts:
  assumes "is_terminal st = Inr False"
    and "mcts_search softmax (new_MCTSNode st) model (Suc n) c_puct = Inr root_node'"
  shows "visit_count root_node' = int (Suc n)
       \<and> children_visits root_node' = (if children root_node' = [] then 0 else int (Suc n) - 1)"
proof -
  from assms(2) obtain n1 where
    step: "simulation softmax model c_puct (new_MCTSNode st) = Inr n1"
    and rest: "mcts_search softmax n1 model n c_puct = Inr root_node'"
    by (auto simp: ebind_def split: sum.splits)
  have first: "visit_count n1 = 1 \<and> children_visits n1 = 0 \<and> expanded n1"
    using simulation_first [OF _ _ _ step] assms(1) by (simp add: new_MCTSNode_def)
  show ?thesis
  proof (cases "children n1 = []")
    case True
    with mcts_search_childless [OF rest] first show ?thesis
      by (simp add: children_visits_def)
  next
    case False
    with mcts_search_later [OF rest] first show ?thesis by simp
  qed
qed

lemma spent_state_playing: "is_terminal spent_state = Inr False"
  by (simp add: spent_state_def is_terminal_def upto_rec1 py_get_def py_index_def)

lemma spent_passed_playing: "is_terminal spent_passed = Inr False"
  by (simp add: spent_passed_def spent_state_def is_terminal_def upto_rec1 py_get_def py_index_def)

lemma spent_root_expand:
  "expand_node uniform_softmax (new_MCTSNode spent_state) uniform_evaluator = Inr spent_root_expanded"
  by (simp add: expand_node_def new_MCTSNode_def spent_state_def uniform_evaluator_def
      spent_root_expanded_def spent_passed_def child_node_def
      is_terminal_def upto_rec1 py_get_def py_set_def py_index_def get_legal_moves_def
      decode_policy_def dict_get_def apply_move_def clone_def)

lemma spent_child_expand:
  "expand_node uniform_softmax (child_node spent_passed PassKey) uniform_evaluator
     = Inr spent_child_expanded"
  by (simp add: expand_node_def child_node_def spent_passed_def spent_state_def
      spent_child_expanded_def uniform_evaluator_def
      is_terminal_def upto_rec1 py_get_def py_set_def py_index_def get_legal_moves_def
      decode_policy_def dict_get_def apply_move_def clone_def)

lemma spent_first_simulation:
  "simulation uniform_softmax uniform_evaluator 1 (new_MCTSNode spent_state)
     = Inr (backup_step 0 spent_root_expanded)"
proof -
  have sel: "select 1 (new_MCTSNode spent_state) = Inr ([], new_MCTSNode spent_state)"
    by (rule select_leaf) (simp add: new_MCTSNode_def)
  have st: "state (new_MCTSNode spent_state) = spent_state" "\<not> expanded (new_MCTSNode spent_state)"
    by (simp_all add: new_MCTSNode_def)
  have ev: "evaluate_node spent_root_expanded uniform_evaluator = Inr 0"
    by (simp add: evaluate_node_def spent_root_expanded_def spent_state_playing uniform_evaluator_def)
  show ?thesis
    by (simp add: simulation_def sel st spent_state_playing spent_root_expand ev)
qed

lemma spent_second_simulation:
  "simulation uniform_softmax uniform_evaluator 1 (backup_step 0 spent_root_expanded) =
     Inr (backup_value [0] 0 (store_at [0] spent_child_expanded (backup_step 0 spent_root_expanded)))"
proof -
  let ?root = "backup_step 0 spent_root_expanded"
  let ?child = "child_node spent_passed PassKey"
  have best: "best_child ?root 1 = Inr (Some (0, ?child))"
    by (simp add: best_child_def backup_step_def spent_root_expanded_def ucb_score_def child_node_def)
  have leaf: "select 1 ?child = Inr ([], ?child)"
    by (rule select_leaf) (simp add: child_node_def)
  have "expanded ?root \<and> children ?root \<noteq> []"
    by (simp add: backup_step_def spent_root_expanded_def)
  then have sel: "select 1 ?root = Inr ([0], ?child)"
    by (subst select.simps) (simp add: best leaf)
  have st: "state ?child = spent_passed" "\<not> expanded ?child"
    by (simp_all add: child_node_def)
  have ev: "evaluate_node spent_child_expanded uniform_evaluator = Inr 0"
    by (simp add: evaluate_node_def spent_child_expanded_def spent_passed_playing uniform_evaluator_def)
  show ?thesis
    by (simp add: simulation_def sel st spent_passed_playing spent_child_expand ev)
qed

text \<open>
  Claim C2 as stated fails already for a budget of 1: after the one simulation the root has
  been expanded and visited, and none of its children has.
\<close>

theorem mcts_search_one_simulation_counterexample:
  "is_terminal spent_state = Inr False
   \<and> mcts_search uniform_softmax (new_MCTSNode spent_state) uniform_evaluator 1 1
       = Inr (backup_step 0 spent_root_expanded)
   \<and> children_visits (backup_step 0 spent_root_expanded) = 0"
  by (simp add: spent_state_playing spent_first_simulation)
    (simp add: children_visits_def spent_root_expanded_def child_node_def)

theorem mcts_search_visit_counts_witness:
  "is_terminal spent_state = Inr False
   \<and> \<not> isl (mcts_search uniform_softmax (new_MCTSNode spent_state) uniform_evaluator (Suc 1) 1)
   \<and> children (projr (mcts_search uniform_softmax (new_MCTSNode spent_state)
                        uniform_evaluator (Suc 1) 1)) \<noteq> []
   \<and> visit_count (projr (mcts_search uniform_softmax (new_MCTSNode spent_state)
                           uniform_evaluator (Suc 1) 1)) = 2
   \<and> children_visits (projr (mcts_search uniform_softmax (new_MCTSNode spent_state)
                               uniform_evaluator (Suc 1) 1)) = 1"
proof -
  define result where "result =
    backup_value [0] 0 (store_at [0] spent_child_expanded (backup_step 0 spent_root_expanded))"
  have run: "mcts_search uniform_softmax (new_MCTSNode spent_state) uniform_evaluator (Suc 1) 1
               = Inr result"
    unfolding result_def by (simp add: spent_first_simulation spent_second_simulation)
  have kids: "children result \<noteq> []"
    by (simp add: result_def spent_root_expanded_def)
  show ?thesis
    unfolding run
    using mcts_search_visit_counts [OF spent_state_playing run] spent_state_playing kids
    by simp
qed

section \<open>apply\_move on the store: what the call leaves of its argument\<close>

subsection \<open>Every statement of the call keeps the objects that were there\<close>




















subsection \<open>The input state reads the same in every store that extends the first\<close>













subsection \<open>The opening position in the store\<close>





subsection \<open>The objects that clone creates\<close>












subsection \<open>The branch of apply\_move on the new objects\<close>
















subsection \<open>The call leaves its argument as it was\<close>







end
